theory Spec2Isabelle
  imports Main "HOL-Library.Multiset" "HOL-Library.Signed_Division"
begin

section \<open>The tile build and merge pipeline of VoxelTree.cpp\<close>

text \<open>
  The embedding follows \<^verbatim>\<open>Source/Voxels/VoxelTree.cpp\<close>. The header, the classes
  \<^verbatim>\<open>VoxelWriter\<close>, \<^verbatim>\<open>VoxelBuilder\<close>, \<^verbatim>\<open>Bounds\<close> and the OpenGL calls are not part of the
  source at hand. The compile-time constants \<^verbatim>\<open>TileSubdivisons\<close> and \<^verbatim>\<open>ConcurrentBuilds\<close>
  and the depth renderer are parameters of the model (record \<open>config\<close>); what the absent
  classes do is modelled from the specification, and marked so.

  The counters \<^verbatim>\<open>startedTiles_\<close>, \<^verbatim>\<open>completedTiles_\<close> and \<^verbatim>\<open>tilesOnGPU_\<close> are C \<^verbatim>\<open>int\<close>s that
  only ever count upwards from 0 and are bounded by \<^verbatim>\<open>TileSubdivisons * TileSubdivisons\<close>;
  they are natural numbers here. Member names are written without their trailing
  underscore (\<open>startedTiles\<close> for \<^verbatim>\<open>startedTiles_\<close>). The constructor's \<^verbatim>\<open>resolution\<close> may be
  any \<^verbatim>\<open>int\<close>, and the division that yields the tile resolution truncates towards zero
  (\<open>sdiv\<close>); it cannot overflow.
\<close>

subsection \<open>Arena writer\<close>

text \<open>
  Modelled from the spec: the class \<^verbatim>\<open>VoxelWriter\<close> (\<^verbatim>\<open>writeNode\<close>, \<^verbatim>\<open>writeTree\<close>, \<^verbatim>\<open>data\<close>) and
  the types \<^verbatim>\<open>VoxelPointer\<close> and \<^verbatim>\<open>VoxelInnerNode\<close> are missing. The specification describes a
  VoxelPointer as an integer offset into the arena that identifies a node, an inner node
  as a child bitmask with references to children, and the arena as an append-only buffer
  of encoded nodes. The encoding itself is not given, so the arena is the list of its
  nodes and a pointer is the position of a node in that list. Pointers are unbounded
  here; an arena too long for a 32-bit offset is not considered.
\<close>

type_synonym VoxelPointer = nat

record VoxelInnerNode =
  childMask :: nat
  children :: "VoxelPointer list"

type_synonym arena = "VoxelInnerNode list"

text \<open>
  Modelled from the spec: \<^verbatim>\<open>writeNode(node, level, siblingIndex)\<close> "appends one encoded
  inner node, returns its address".
\<close>

definition writeNode :: "arena \<Rightarrow> VoxelInnerNode \<Rightarrow> nat \<Rightarrow> nat \<Rightarrow> VoxelPointer \<times> arena" where
  "writeNode buf node level siblingIndex = (length buf, buf @ [node])"

text \<open>
  Modelled from the spec: relocation is "rewriting a pointer by adding the destination
  arena's offset"; it is applied to every child reference of a node.
\<close>

definition relocate :: "nat \<Rightarrow> VoxelInnerNode \<Rightarrow> VoxelInnerNode" where
  "relocate offset node = node\<lparr>children := map (\<lambda>p. p + offset) (children node)\<rparr>"

text \<open>
  Modelled from the spec: \<^verbatim>\<open>writeTree(subtreeBuffer, subtreeRootLocalPointer, tileResolution)\<close>
  "appends an entire foreign subtree (translating all internal pointers by the current
  arena length) and returns the relocated root pointer".
\<close>

definition writeTree :: "arena \<Rightarrow> arena \<Rightarrow> VoxelPointer \<Rightarrow> int \<Rightarrow> VoxelPointer \<times> arena" where
  "writeTree buf subtree subtreeRoot tileRes =
     (let offset = length buf
      in (subtreeRoot + offset, buf @ map (relocate offset) subtree))"

text \<open>The nodes that can be reached from a root by following child pointers.\<close>

inductive reach :: "arena \<Rightarrow> VoxelPointer \<Rightarrow> VoxelPointer \<Rightarrow> bool" for buf root where
  reach_root: "reach buf root root"
| reach_child: "reach buf root p \<Longrightarrow> p < length buf \<Longrightarrow> c \<in> set (children (buf ! p))
     \<Longrightarrow> reach buf root c"

code_pred reach .

text \<open>A buffer whose pointers all stay inside it, with a root inside it.\<close>

definition closed_tree :: "arena \<Rightarrow> VoxelPointer \<Rightarrow> bool" where
  "closed_tree buf root \<longleftrightarrow>
     root < length buf \<and> list_all (\<lambda>node. list_all (\<lambda>p. p < length buf) (children node)) buf"

subsection \<open>Builder handles\<close>

text \<open>
  Modelled from the spec: the class \<^verbatim>\<open>VoxelBuilder\<close> is missing. A handle keeps the
  arguments it was constructed with, is in state \<open>Building\<close> until its background build
  ends, and in state \<open>Done\<close> exposes its subtree buffer and the local root address.
\<close>

datatype VoxelBuilderState = Building | Done

record 'd VoxelBuilder =
  tileIndex :: nat
  resolution :: int
  entryDepths :: 'd
  exitDepths :: 'd
  buildState :: VoxelBuilderState
  tree :: arena
  rootAddress :: VoxelPointer

definition new_VoxelBuilder :: "nat \<Rightarrow> int \<Rightarrow> 'd \<Rightarrow> 'd \<Rightarrow> 'd VoxelBuilder" where
  "new_VoxelBuilder tile res entry exit =
     \<lparr>tileIndex = tile, resolution = res, entryDepths = entry, exitDepths = exit,
      buildState = Building, tree = [], rootAddress = 0\<rparr>"

subsection \<open>Pipeline state, parameters and effects\<close>

record 'd VoxelTree =
  tileResolution :: int
  voxelWriter :: arena
  startedTiles :: nat
  completedTiles :: nat
  activeTiles :: "'d VoxelBuilder list"
  tilesOnGPU :: nat
  treePointers :: "VoxelPointer list"

text \<open>
  The constants of the missing header, the external collaborators, and the memory the
  object is constructed in. \<open>computeDualShadowMaps\<close> renders through OpenGL; the pipeline
  only passes the bounds of a tile on to the renderer and the rendered grids on to the
  builder, so the bounds are values of any type here and \<open>tileBounds\<close> is any function
  (the float arithmetic of \<^verbatim>\<open>VoxelTree::tileBounds\<close> is \<open>VoxelTree_tileBounds\<close> below).
  The member array \<^verbatim>\<open>treePointers_\<close> is not initialised before the constructor's loop
  runs: \<open>uninitialised i\<close> is whatever its cell \<open>i\<close> holds then.
\<close>

record ('b, 'd) config =
  TileSubdivisons :: nat
  ConcurrentBuilds :: nat
  tileBounds :: "nat \<Rightarrow> 'b"
  computeDualShadowMaps :: "'b \<Rightarrow> 'd \<times> 'd"
  uninitialised :: "nat \<Rightarrow> VoxelPointer"

definition tileCount :: "('b, 'd) config \<Rightarrow> nat" where
  "tileCount cfg = TileSubdivisons cfg * TileSubdivisons cfg"

text \<open>
  What a call does besides changing the state: the builders it creates and deletes, the
  writes to the root pointer table, and the uploads to the consumer.
\<close>

datatype 'd effect =
  NewVoxelBuilder nat int 'd 'd
| WriteTreePointer nat VoxelPointer
| DeleteBuilder "'d VoxelBuilder"
| UpdateUniformBuffer "VoxelPointer list"
| UpdateTreeBuffer arena

datatype error = AssertionFailed | DivisionByZero | OutOfBounds

text \<open>
  \<^verbatim>\<open>updateUniformBuffer\<close> copies \<^verbatim>\<open>treePointers_[i]\<close> for every tile into the uniform block
  (the transform and the tree height are float data and left out); \<^verbatim>\<open>updateTreeBuffer\<close>
  uploads the writer's current data.
\<close>

definition updateUniformBuffer :: "('b, 'd) config \<Rightarrow> 'd VoxelTree \<Rightarrow> 'd effect" where
  "updateUniformBuffer cfg s =
     UpdateUniformBuffer (map (\<lambda>i. treePointers s ! i) [0..<tileCount cfg])"

definition updateTreeBuffer :: "'d VoxelTree \<Rightarrow> 'd effect" where
  "updateTreeBuffer s = UpdateTreeBuffer (voxelWriter s)"

subsection \<open>Construction\<close>

text \<open>
  The constructor. \<^verbatim>\<open>assert\<close> aborts (asserts are taken as compiled in); division by a
  zero \<^verbatim>\<open>TileSubdivisons\<close> is undefined in C++ and an error here. The dummy node has the
  child mask 21845 and no child references. The table \<^verbatim>\<open>treePointers_\<close> is filled by the
  loop over all tile indices, starting from the uninitialised storage. The
  calls that create the OpenGL buffer and texture and start the merge thread leave no
  trace in the state; the two uploads are returned as effects.
\<close>

definition VoxelTree_new ::
  "('b, 'd) config \<Rightarrow> int \<Rightarrow> error + ('d effect list \<times> 'd VoxelTree)" where
  "VoxelTree_new cfg res =
     (if TileSubdivisons cfg = 0 then Inl DivisionByZero
      else
        let tileRes = res sdiv int (TileSubdivisons cfg)
        in if \<not> 8 \<le> tileRes then Inl AssertionFailed
           else if \<not> tileRes \<le> 16384 then Inl AssertionFailed
           else
             let node = \<lparr>childMask = 21845, children = []\<rparr>;
                 (nodePtr, buf) = writeNode [] node 0 0;
                 table = fold (\<lambda>i tp. tp[i := nodePtr]) [0..<tileCount cfg]
                           (map (uninitialised cfg) [0..<tileCount cfg]);
                 s = \<lparr>tileResolution = tileRes, voxelWriter = buf,
                      startedTiles = 0, completedTiles = 0, activeTiles = [],
                      tilesOnGPU = 0, treePointers = table\<rparr>
             in Inr ([updateTreeBuffer s, updateUniformBuffer cfg s], s))"

subsection \<open>Admission and the per-frame driver\<close>

definition processFirstQueuedTile ::
  "('b, 'd) config \<Rightarrow> 'd VoxelTree \<Rightarrow> 'd effect list \<times> 'd VoxelTree" where
  "processFirstQueuedTile cfg s =
     (if startedTiles s = tileCount cfg then ([], s)
      else
        let tile = startedTiles s;
            bounds = tileBounds cfg tile;
            (entry, exit) = computeDualShadowMaps cfg bounds
        in ([NewVoxelBuilder tile (tileResolution s) entry exit],
            s\<lparr>activeTiles :=
                 activeTiles s @ [new_VoxelBuilder tile (tileResolution s) entry exit],
              startedTiles := startedTiles s + 1\<rparr>))"

definition updateBuild ::
  "('b, 'd) config \<Rightarrow> 'd VoxelTree \<Rightarrow> 'd effect list \<times> 'd VoxelTree" where
  "updateBuild cfg s =
     (let (e1, s1) = (if length (activeTiles s) < ConcurrentBuilds cfg
                      then processFirstQueuedTile cfg s else ([], s));
          (e2, s2) = (if tilesOnGPU s1 < completedTiles s1
                      then let s' = s1\<lparr>tilesOnGPU := completedTiles s1\<rparr>
                           in ([updateUniformBuffer cfg s', updateTreeBuffer s'], s')
                      else ([], s1))
      in (e1 @ e2, s2))"

subsection \<open>The merge loop\<close>

text \<open>
  \<^verbatim>\<open>std::swap(activeTiles_[i], activeTiles_.back())\<close> followed by \<^verbatim>\<open>pop_back()\<close>, and the
  \<^verbatim>\<open>for\<close> loop of \<^verbatim>\<open>findFinishedBuilder\<close> from index \<open>i\<close> on. The function returns the builder
  it found, if any, together with the collection as the call leaves it.
\<close>

definition swap :: "nat \<Rightarrow> nat \<Rightarrow> 'a list \<Rightarrow> 'a list" where
  "swap i j xs = xs[i := xs ! j, j := xs ! i]"

definition pop_back :: "'a list \<Rightarrow> 'a list" where
  "pop_back xs = butlast xs"

function findFinishedBuilder_from ::
  "nat \<Rightarrow> 'd VoxelBuilder list \<Rightarrow> 'd VoxelBuilder option \<times> 'd VoxelBuilder list" where
  "findFinishedBuilder_from i tiles =
     (if i < length tiles
      then let builder = tiles ! i
           in if buildState builder = Done
              then (Some builder, pop_back (swap i (length tiles - 1) tiles))
              else findFinishedBuilder_from (i + 1) tiles
      else (None, tiles))"
  by pat_completeness auto
termination
  by (relation "measure (\<lambda>(i, tiles). length tiles - i)") auto

definition findFinishedBuilder ::
  "'d VoxelBuilder list \<Rightarrow> 'd VoxelBuilder option \<times> 'd VoxelBuilder list" where
  "findFinishedBuilder tiles = findFinishedBuilder_from 0 tiles"

text \<open>
  One pass through the body of the \<^verbatim>\<open>while\<close> loop of \<^verbatim>\<open>mergeTiles\<close>. The write
  \<^verbatim>\<open>treePointers_[tile] = ptr\<close> is unchecked in C++; outside the table it is an error here.
\<close>

definition mergeTiles_body ::
  "'d VoxelTree \<Rightarrow> error + ('d effect list \<times> 'd VoxelTree)" where
  "mergeTiles_body s =
     (case findFinishedBuilder (activeTiles s) of
        (None, tiles) \<Rightarrow> Inr ([], s\<lparr>activeTiles := tiles\<rparr>)
      | (Some builder, tiles) \<Rightarrow>
          let tile = tileIndex builder;
              subtree = tree builder;
              subtreeRoot = rootAddress builder;
              (ptr, buf) = writeTree (voxelWriter s) subtree subtreeRoot (tileResolution s)
          in if tile < length (treePointers s)
             then Inr ([WriteTreePointer tile ptr, DeleteBuilder builder],
                       s\<lparr>activeTiles := tiles, voxelWriter := buf,
                         treePointers := (treePointers s)[tile := ptr],
                         completedTiles := completedTiles s + 1\<rparr>)
             else Inl OutOfBounds)"

text \<open>
  The loop itself, run on its own (no builder changes state meanwhile). It polls
  without blocking, so it need not end: \<open>None\<close> is "still polling when the fuel ran out".
\<close>

fun mergeTiles ::
  "('b, 'd) config \<Rightarrow> nat \<Rightarrow> 'd VoxelTree \<Rightarrow> (error + ('d effect list \<times> 'd VoxelTree)) option" where
  "mergeTiles cfg fuel s =
     (if completedTiles s < tileCount cfg
      then (case fuel of
              0 \<Rightarrow> None
            | Suc k \<Rightarrow>
                (case mergeTiles_body s of
                   Inl e \<Rightarrow> Some (Inl e)
                 | Inr (es, s') \<Rightarrow>
                     (case mergeTiles cfg k s' of
                        None \<Rightarrow> None
                      | Some (Inl e) \<Rightarrow> Some (Inl e)
                      | Some (Inr (es', s'')) \<Rightarrow> Some (Inr (es @ es', s'')))))
      else Some (Inr ([], s)))"

subsection \<open>Runs of the pipeline\<close>

text \<open>
  The driver thread calls \<^verbatim>\<open>updateBuild\<close> once per frame, the merge thread passes through
  its loop, and the background build of an active handle ends at some moment. A run
  interleaves these events, each of them taken as a whole: a call of \<^verbatim>\<open>updateBuild\<close>, or
  a pass through the loop, that no statement of the other thread comes in between. The
  mutex that guards \<^verbatim>\<open>activeTiles_\<close> is therefore not modelled. The interleaving of the
  single statements of the two threads follows further down.
\<close>

datatype event = UpdateBuild | MergeIteration | BuilderFinished nat arena VoxelPointer

text \<open>
  Modelled from the spec: the background build of \<^verbatim>\<open>VoxelBuilder\<close> is missing. The handle
  at position \<open>i\<close> of the active builders, if it is \<open>Building\<close>, becomes \<open>Done\<close> and from then
  on exposes the subtree \<open>t\<close> with local root \<open>r\<close>; its tile index and its other
  construction arguments stay as they are.
\<close>

definition builderFinished ::
  "nat \<Rightarrow> arena \<Rightarrow> VoxelPointer \<Rightarrow> 'd VoxelTree \<Rightarrow> 'd VoxelTree" where
  "builderFinished i t r s =
     (if i < length (activeTiles s) \<and> buildState (activeTiles s ! i) = Building
      then s\<lparr>activeTiles :=
               (activeTiles s)[i := (activeTiles s ! i)\<lparr>buildState := Done, tree := t,
                                                          rootAddress := r\<rparr>]\<rparr>
      else s)"

definition step ::
  "('b, 'd) config \<Rightarrow> 'd VoxelTree \<Rightarrow> event \<Rightarrow> error + ('d effect list \<times> 'd VoxelTree)" where
  "step cfg s ev =
     (case ev of
        UpdateBuild \<Rightarrow> Inr (updateBuild cfg s)
      | MergeIteration \<Rightarrow>
          (if completedTiles s < tileCount cfg then mergeTiles_body s else Inr ([], s))
      | BuilderFinished i t r \<Rightarrow> Inr ([], builderFinished i t r s))"

fun run ::
  "('b, 'd) config \<Rightarrow> 'd VoxelTree \<Rightarrow> event list \<Rightarrow> error + ('d effect list \<times> 'd VoxelTree)" where
  "run cfg s [] = Inr ([], s)"
| "run cfg s (ev # evs) =
     (case step cfg s ev of
        Inl e \<Rightarrow> Inl e
      | Inr (es, s') \<Rightarrow>
          (case run cfg s' evs of
             Inl e \<Rightarrow> Inl e
           | Inr (es', s'') \<Rightarrow> Inr (es @ es', s'')))"

text \<open>The tiles admitted, and the table entries written, according to a list of effects.\<close>

fun admitted :: "'d effect list \<Rightarrow> nat list" where
  "admitted [] = []"
| "admitted (NewVoxelBuilder t r en ex # es) = t # admitted es"
| "admitted (e # es) = admitted es"

fun written :: "'d effect list \<Rightarrow> nat list" where
  "written [] = []"
| "written (WriteTreePointer t p # es) = t # written es"
| "written (e # es) = written es"

fun published :: "'d effect list \<Rightarrow> 'd effect list" where
  "published [] = []"
| "published (UpdateUniformBuffer tp # es) = UpdateUniformBuffer tp # published es"
| "published (UpdateTreeBuffer buf # es) = UpdateTreeBuffer buf # published es"
| "published (e # es) = published es"

subsection \<open>The two threads, statement by statement\<close>

text \<open>
  The merge thread runs while the driver thread is inside \<^verbatim>\<open>updateBuild\<close>, so the
  statements of the two threads interleave. Here a thread moves from one program point
  to the next in one step; a step is a region under the mutex, a single update of a
  counter, or a stretch that changes nothing shared.

  Program points of the driver thread: outside \<^verbatim>\<open>updateBuild\<close>; before the locked
  \<^verbatim>\<open>push_back\<close> of line 100, with the rendered depth grids in hand; before
  \<^verbatim>\<open>startedTiles_++\<close> of line 104; before the test of line 66; before the assignment of
  line 68; before the uploads of lines 70 and 71.
\<close>

datatype 'd driver_pc = DIdle | DRegister 'd 'd | DIncrement | DPublish | DAssign | DUpload

text \<open>
  Program points of the merge thread: at the head of the loop (line 110); holding a
  finished builder that is no longer in the collection (lines 122 to 132); before
  \<^verbatim>\<open>completedTiles_++\<close> of line 135; after the loop.
\<close>

datatype 'd merger_pc = MLoop | MMerge "'d VoxelBuilder" | MIncrement | MExit

record 'd threads =
  shared :: "'d VoxelTree"
  driver :: "'d driver_pc"
  merger :: "'d merger_pc"

text \<open>The constructor starts the merge thread as its last statement (line 49).\<close>

definition threads_init :: "'d VoxelTree \<Rightarrow> 'd threads" where
  "threads_init s = \<lparr>shared = s, driver = DIdle, merger = MLoop\<rparr>"

text \<open>The next statement of the driver thread; from outside, a new call of \<^verbatim>\<open>updateBuild\<close>.\<close>

definition driver_stmt ::
  "('b, 'd) config \<Rightarrow> 'd threads \<Rightarrow> 'd effect list \<times> 'd threads" where
  "driver_stmt cfg st =
     (let s = shared st
      in case driver st of
           DIdle \<Rightarrow>
             if length (activeTiles s) < ConcurrentBuilds cfg
             then if startedTiles s = tileCount cfg then ([], st\<lparr>driver := DPublish\<rparr>)
                  else let tile = startedTiles s;
                           bounds = tileBounds cfg tile;
                           (entry, exit) = computeDualShadowMaps cfg bounds
                       in ([], st\<lparr>driver := DRegister entry exit\<rparr>)
             else ([], st\<lparr>driver := DPublish\<rparr>)
         | DRegister entry exit \<Rightarrow>
             ([NewVoxelBuilder (startedTiles s) (tileResolution s) entry exit],
              st\<lparr>shared := s\<lparr>activeTiles := activeTiles s @
                      [new_VoxelBuilder (startedTiles s) (tileResolution s) entry exit]\<rparr>,
                driver := DIncrement\<rparr>)
         | DIncrement \<Rightarrow>
             ([], st\<lparr>shared := s\<lparr>startedTiles := startedTiles s + 1\<rparr>, driver := DPublish\<rparr>)
         | DPublish \<Rightarrow>
             ([], st\<lparr>driver := (if tilesOnGPU s < completedTiles s then DAssign else DIdle)\<rparr>)
         | DAssign \<Rightarrow>
             ([], st\<lparr>shared := s\<lparr>tilesOnGPU := completedTiles s\<rparr>, driver := DUpload\<rparr>)
         | DUpload \<Rightarrow>
             ([updateUniformBuffer cfg s, updateTreeBuffer s], st\<lparr>driver := DIdle\<rparr>))"

text \<open>The next statement of the merge thread; after the loop there is none.\<close>

definition merger_stmt ::
  "('b, 'd) config \<Rightarrow> 'd threads \<Rightarrow> error + ('d effect list \<times> 'd threads)" where
  "merger_stmt cfg st =
     (let s = shared st
      in case merger st of
           MLoop \<Rightarrow>
             if completedTiles s < tileCount cfg
             then (case findFinishedBuilder (activeTiles s) of
                     (None, tiles) \<Rightarrow> Inr ([], st\<lparr>shared := s\<lparr>activeTiles := tiles\<rparr>\<rparr>)
                   | (Some builder, tiles) \<Rightarrow>
                       Inr ([], st\<lparr>shared := s\<lparr>activeTiles := tiles\<rparr>,
                                  merger := MMerge builder\<rparr>))
             else Inr ([], st\<lparr>merger := MExit\<rparr>)
         | MMerge builder \<Rightarrow>
             let tile = tileIndex builder;
                 subtree = tree builder;
                 subtreeRoot = rootAddress builder;
                 (ptr, buf) = writeTree (voxelWriter s) subtree subtreeRoot (tileResolution s)
             in if tile < length (treePointers s)
                then Inr ([WriteTreePointer tile ptr, DeleteBuilder builder],
                          st\<lparr>shared := s\<lparr>voxelWriter := buf,
                                           treePointers := (treePointers s)[tile := ptr]\<rparr>,
                            merger := MIncrement\<rparr>)
                else Inl OutOfBounds
         | MIncrement \<Rightarrow>
             Inr ([], st\<lparr>shared := s\<lparr>completedTiles := completedTiles s + 1\<rparr>,
                        merger := MLoop\<rparr>)
         | MExit \<Rightarrow> Inr ([], st))"

text \<open>
  What happens next: a statement of the driver thread, a statement of the merge thread,
  or the end of the background build of an active builder.
\<close>

datatype sched = DriverStmt | MergerStmt | BuilderEnds nat arena VoxelPointer

definition thread_step ::
  "('b, 'd) config \<Rightarrow> 'd threads \<Rightarrow> sched \<Rightarrow> error + ('d effect list \<times> 'd threads)" where
  "thread_step cfg st ev =
     (case ev of
        DriverStmt \<Rightarrow> Inr (driver_stmt cfg st)
      | MergerStmt \<Rightarrow> merger_stmt cfg st
      | BuilderEnds i t r \<Rightarrow> Inr ([], st\<lparr>shared := builderFinished i t r (shared st)\<rparr>))"

fun interleave ::
  "('b, 'd) config \<Rightarrow> 'd threads \<Rightarrow> sched list \<Rightarrow> error + ('d effect list \<times> 'd threads)" where
  "interleave cfg st [] = Inr ([], st)"
| "interleave cfg st (ev # evs) =
     (case thread_step cfg st ev of
        Inl e \<Rightarrow> Inl e
      | Inr (es, st') \<Rightarrow>
          (case interleave cfg st' evs of
             Inl e \<Rightarrow> Inl e
           | Inr (es', st'') \<Rightarrow> Inr (es @ es', st'')))"

text \<open>
  The invariant of the interleaved threads. A builder that the driver has registered
  but not yet counted is \<open>pending\<close>; a builder that the merge thread has taken out of the
  collection but not yet counted is \<open>held\<close>.
\<close>

fun pending :: "'d driver_pc \<Rightarrow> nat" where
  "pending DIncrement = 1"
| "pending pc = 0"

fun held :: "'d merger_pc \<Rightarrow> nat" where
  "held (MMerge b) = 1"
| "held MIncrement = 1"
| "held pc = 0"

definition threads_inv :: "('b, 'd) config \<Rightarrow> 'd threads \<Rightarrow> bool" where
  "threads_inv cfg st \<longleftrightarrow>
     (let s = shared st; started = startedTiles s + pending (driver st)
      in tilesOnGPU s \<le> completedTiles s \<and>
         completedTiles s + length (activeTiles s) + held (merger st) = started \<and>
         started \<le> tileCount cfg \<and>
         (case driver st of DRegister entry exit \<Rightarrow> startedTiles s < tileCount cfg | _ \<Rightarrow> True) \<and>
         length (treePointers s) = tileCount cfg \<and>
         list_all (\<lambda>b. tileIndex b < started) (activeTiles s) \<and>
         (case merger st of MMerge b \<Rightarrow> tileIndex b < started | _ \<Rightarrow> True))"

subsection \<open>Invariants of a run\<close>

text \<open>
  The state invariant: every started tile is either merged or held by an active builder,
  the counters are ordered and bounded by the number of tiles, the active builders
  respect the concurrency cap, and the table has one entry per tile.
\<close>

definition pipeline_inv :: "('b, 'd) config \<Rightarrow> 'd VoxelTree \<Rightarrow> bool" where
  "pipeline_inv cfg s \<longleftrightarrow>
     tilesOnGPU s \<le> completedTiles s \<and>
     completedTiles s + length (activeTiles s) = startedTiles s \<and>
     startedTiles s \<le> tileCount cfg \<and>
     length (activeTiles s) \<le> ConcurrentBuilds cfg \<and>
     length (treePointers s) = tileCount cfg \<and>
     list_all (\<lambda>b. tileIndex b < startedTiles s) (activeTiles s)"

text \<open>No counter of the second state is below the same counter of the first.\<close>

definition counters_le :: "'d VoxelTree \<Rightarrow> 'd VoxelTree \<Rightarrow> bool" where
  "counters_le s s' \<longleftrightarrow>
     startedTiles s \<le> startedTiles s' \<and> completedTiles s \<le> completedTiles s' \<and>
     tilesOnGPU s \<le> tilesOnGPU s'"

text \<open>
  The effects so far against the state: tiles were admitted in index order, and every
  admitted tile is either written to the table (once) or still held by an active builder.
\<close>

definition trace_inv :: "'d effect list \<Rightarrow> 'd VoxelTree \<Rightarrow> bool" where
  "trace_inv es s \<longleftrightarrow>
     admitted es = [0..<startedTiles s] \<and>
     mset (written es) + mset (map tileIndex (activeTiles s)) = mset [0..<startedTiles s]"

text \<open>
  The table against the effects: entries never written still hold the address 0 that
  the constructor gave them, and address 0 of the arena still holds the dummy node.
\<close>

definition table_inv :: "'d effect list \<Rightarrow> 'd VoxelTree \<Rightarrow> bool" where
  "table_inv es s \<longleftrightarrow>
     (\<forall>t<length (treePointers s). t \<notin> set (written es) \<longrightarrow> treePointers s ! t = 0) \<and>
     take 1 (voxelWriter s) = [\<lparr>childMask = 21845, children = []\<rparr>]"

subsection \<open>Scene bounds in light space\<close>

text \<open>
  Coordinates are \<^verbatim>\<open>float\<close>s in the source. \<open>sceneBoundsLightSpace\<close> only compares and
  copies them, so they are values of any linearly ordered type with a zero here (which
  leaves out NaN). The fields \<^verbatim>\<open>x\<close>, \<^verbatim>\<open>y\<close>, \<^verbatim>\<open>z\<close> of a vector are \<open>vx\<close>, \<open>vy\<close>, \<open>vz\<close>, and the
  accessors \<^verbatim>\<open>min()\<close>, \<^verbatim>\<open>max()\<close> of \<^verbatim>\<open>Bounds\<close> are \<open>bmin\<close>, \<open>bmax\<close>.
\<close>

record 'a Vector3 =
  vx :: 'a
  vy :: 'a
  vz :: 'a

record 'a Bounds =
  bmin :: "'a Vector3"
  bmax :: "'a Vector3"

definition Vector3_zero :: "'a::zero Vector3" where
  "Vector3_zero = \<lparr>vx = 0, vy = 0, vz = 0\<rparr>"

text \<open>
  Modelled from the spec: the class \<^verbatim>\<open>Bounds\<close> is missing. The specification says of
  the domain bounds that they are "expanded to cover every transformed vertex";
  \<^verbatim>\<open>expandToCover\<close> grows the box, coordinate by coordinate, just enough to hold the point.
\<close>

definition expandToCover :: "'a::linorder Bounds \<Rightarrow> 'a Vector3 \<Rightarrow> 'a Bounds" where
  "expandToCover b p =
     \<lparr>bmin = \<lparr>vx = min (vx (bmin b)) (vx p), vy = min (vy (bmin b)) (vy p),
              vz = min (vz (bmin b)) (vz p)\<rparr>,
      bmax = \<lparr>vx = max (vx (bmax b)) (vx p), vy = max (vy (bmax b)) (vy p),
              vz = max (vz (bmax b)) (vz p)\<rparr>\<rparr>"

definition covers :: "'a::linorder Bounds \<Rightarrow> 'a Vector3 \<Rightarrow> bool" where
  "covers b p \<longleftrightarrow>
     vx (bmin b) \<le> vx p \<and> vx p \<le> vx (bmax b) \<and>
     vy (bmin b) \<le> vy p \<and> vy p \<le> vy (bmax b) \<and>
     vz (bmin b) \<le> vz p \<and> vz p \<le> vz (bmax b)"

text \<open>
  A mesh instance with its \<^verbatim>\<open>localToWorld\<close> matrix and the vertices of its mesh. The
  matrix arithmetic is external: \<open>toLight m v\<close> stands for the light-space position
  \<^verbatim>\<open>(worldToLight * m * Vector4(v, 1.0)).vec3()\<close> of vertex \<open>v\<close> under the matrix \<open>m\<close>.
\<close>

record ('m, 'a) MeshInstance =
  localToWorld :: 'm
  vertices :: "'a Vector3 list"

definition sceneBoundsLightSpace ::
  "('m \<Rightarrow> 'a Vector3 \<Rightarrow> 'a Vector3) \<Rightarrow> ('m, 'a) MeshInstance list \<Rightarrow> 'a::{linorder,zero} Bounds" where
  "sceneBoundsLightSpace toLight instances =
     fold (\<lambda>inst bounds.
             fold (\<lambda>v bounds. expandToCover bounds (toLight (localToWorld inst) v))
               (vertices inst) bounds)
       instances \<lparr>bmin = Vector3_zero, bmax = Vector3_zero\<rparr>"

subsection \<open>Tile bounds in binary32 arithmetic\<close>

text \<open>
  \<^verbatim>\<open>tileBounds\<close> computes with \<^verbatim>\<open>float\<close>, taken to be IEEE binary32 with every operation
  rounded to nearest, ties to even, and no evaluation in higher precision. Every finite
  binary32 number is a whole multiple of \<open>2\<^sup>-\<^sup>1\<^sup>4\<^sup>9\<close>; the number \<open>v\<close> is represented by the
  integer \<open>v * 2\<^sup>1\<^sup>4\<^sup>9\<close>. Infinities and NaN are left out: the operations below are those
  of binary32 as long as their results stay in the finite range.

  \<open>quantum m\<close> is the distance between neighbouring binary32 numbers from \<open>m\<close> on, with
  \<open>m\<close> and the distance in units of \<open>2\<^sup>-\<^sup>1\<^sup>4\<^sup>9\<close>: below \<open>2\<^sup>2\<^sup>4\<close> units it is one unit, and it
  doubles with every binade.
\<close>

type_synonym float32 = int

function quantum :: "nat \<Rightarrow> nat" where
  "quantum m = (if m < 2 ^ 24 then 1 else 2 * quantum (m div 2))"
  by pat_completeness auto
termination
  by (relation "measure (\<lambda>m. m)") auto

text \<open>
  \<open>round32 n d\<close>, for \<open>0 < d\<close>: the binary32 number nearest to the fraction \<open>n / d\<close> (in
  units), the one with the even mantissa when two are equally near.
\<close>

definition round32 :: "int \<Rightarrow> int \<Rightarrow> float32" where
  "round32 n d =
     (let q = int (quantum (nat (\<bar>n\<bar> div d)));
          b = d * q;
          t = \<bar>n\<bar> div b;
          r = \<bar>n\<bar> mod b;
          t' = (if 2 * r < b then t else if b < 2 * r then t + 1
                else if even t then t else t + 1)
      in sgn n * (t' * q))"

definition fadd :: "float32 \<Rightarrow> float32 \<Rightarrow> float32" where
  "fadd a b = round32 (a + b) 1"

definition fsub :: "float32 \<Rightarrow> float32 \<Rightarrow> float32" where
  "fsub a b = round32 (a - b) 1"

definition fmul :: "float32 \<Rightarrow> float32 \<Rightarrow> float32" where
  "fmul a b = round32 (a * b) (2 ^ 149)"

text \<open>Division by a divisor other than zero.\<close>

definition fdiv :: "float32 \<Rightarrow> float32 \<Rightarrow> float32" where
  "fdiv a b = (if b < 0 then round32 (- a * 2 ^ 149) (- b) else round32 (a * 2 ^ 149) b)"

text \<open>The conversion of an \<^verbatim>\<open>int\<close> that is not negative to \<^verbatim>\<open>float\<close>.\<close>

definition float_of_nat :: "nat \<Rightarrow> float32" where
  "float_of_nat n = round32 (int n * 2 ^ 149) 1"



subsection \<open>A concrete configuration, with states, a run and a scene\<close>

text \<open>
  Two subdivisions per axis (four tiles), at most two concurrent builds; bounds and depth
  grids are stand-in numbers, and the table holds the values 4711, 4712, ... before the
  constructor fills it.
\<close>

definition demo_config :: "(nat, nat) config" where
  "demo_config = \<lparr>TileSubdivisons = 2, ConcurrentBuilds = 2, tileBounds = (\<lambda>i. i),
                   computeDualShadowMaps = (\<lambda>b. (b, b + 100)),
                   uninitialised = (\<lambda>i. 4711 + i)\<rparr>"

text \<open>
  A state of that configuration in mid-run: tiles 0 and 1 were admitted, tile 1 has
  been merged behind the dummy node, and the merge has not been published yet.
\<close>

definition demo_state :: "nat VoxelTree" where
  "demo_state =
     \<lparr>tileResolution = 8,
      voxelWriter = [\<lparr>childMask = 21845, children = []\<rparr>,
                     \<lparr>childMask = 6, children = [2]\<rparr>, \<lparr>childMask = 5, children = []\<rparr>],
      startedTiles = 2, completedTiles = 1,
      activeTiles = [new_VoxelBuilder 0 8 0 100],
      tilesOnGPU = 0, treePointers = [0, 1, 0, 0]\<rparr>"

text \<open>
  A run of that configuration to completion: tiles are merged in the order 1, 0, 3, 2,
  as their builders finish.
\<close>

definition demo_events :: "event list" where
  "demo_events =
     [UpdateBuild, UpdateBuild,
      BuilderFinished 1 [\<lparr>childMask = 6, children = [1]\<rparr>, \<lparr>childMask = 5, children = []\<rparr>] 0,
      MergeIteration, UpdateBuild,
      BuilderFinished 0 [\<lparr>childMask = 7, children = []\<rparr>] 0,
      MergeIteration, UpdateBuild,
      BuilderFinished 1 [\<lparr>childMask = 8, children = []\<rparr>] 0,
      MergeIteration,
      BuilderFinished 0 [\<lparr>childMask = 9, children = []\<rparr>] 0,
      MergeIteration]"

text \<open>
  A state of that configuration in which the builder of tile 0 has finished and the
  builder of tile 2 is still at work.
\<close>

definition demo_done_state :: "nat VoxelTree" where
  "demo_done_state =
     \<lparr>tileResolution = 8,
      voxelWriter = [\<lparr>childMask = 21845, children = []\<rparr>,
                     \<lparr>childMask = 6, children = [2]\<rparr>, \<lparr>childMask = 5, children = []\<rparr>],
      startedTiles = 3, completedTiles = 1,
      activeTiles = [(new_VoxelBuilder 0 8 0 100)
                       \<lparr>buildState := Done, tree := [\<lparr>childMask = 7, children = []\<rparr>],
                        rootAddress := 0\<rparr>,
                     new_VoxelBuilder 2 8 2 102],
      tilesOnGPU = 1, treePointers = [0, 1, 0, 0]\<rparr>"

text \<open>A scene of one instance with one vertex, and a transformation that moves nothing.\<close>

definition demo_scene :: "(unit, int) MeshInstance list" where
  "demo_scene = [\<lparr>localToWorld = (), vertices = [\<lparr>vx = 1, vy = 2, vz = 3\<rparr>]\<rparr>]"

definition demo_toLight :: "unit \<Rightarrow> int Vector3 \<Rightarrow> int Vector3" where
  "demo_toLight m v = v"

text \<open>
  The schedule in which the builder of tile 0 finishes and is merged after the driver
  has registered it and before the driver has counted it.
\<close>

definition race_events :: "sched list" where
  "race_events =
     [DriverStmt, DriverStmt, BuilderEnds 0 [\<lparr>childMask = 5, children = []\<rparr>] 0,
      MergerStmt, MergerStmt, MergerStmt]"

definition demo_threads :: "nat threads" where
  "demo_threads = threads_init (snd (projr (VoxelTree_new demo_config 16)))"



section \<open>Properties\<close>

subsection \<open>Relocation of a merged subtree\<close>

lemma reach_writeTree:
  assumes "closed_tree subtree root"
    and "reach (buf @ map (relocate (length buf)) subtree) (root + length buf) p"
  shows "length buf \<le> p \<and> p - length buf < length subtree \<and> reach subtree root (p - length buf)"
  using assms(2)
proof (induction rule: reach.induct)
  case reach_root
  from assms(1) show ?case by (simp add: closed_tree_def reach.reach_root)
next
  case (reach_child p c)
  let ?q = "p - length buf"
  from reach_child.IH have p: "length buf \<le> p" "?q < length subtree" "reach subtree root ?q"
    by simp_all
  then have node: "(buf @ map (relocate (length buf)) subtree) ! p = relocate (length buf) (subtree ! ?q)"
    by (simp add: nth_append)
  with reach_child.hyps(3) obtain q where q: "q \<in> set (children (subtree ! ?q))" "c = q + length buf"
    by (auto simp: relocate_def)
  from assms(1) p(2) q(1) have "q < length subtree"
    by (auto simp: closed_tree_def list_all_iff)
  moreover from p q(1) have "reach subtree root q"
    by (rule_tac reach.reach_child) auto
  ultimately show ?case using q(2) by simp
qed

text \<open>
  Claim C1. For every arena \<open>buf\<close> of length \<open>L\<close>, subtree buffer and local root, \<open>writeTree\<close>
  returns the root translated by \<open>L\<close> and appends the subtree behind the unchanged old
  contents, node \<open>i\<close> of the subtree landing at \<open>L + i\<close> with its mask kept and every
  child pointer rewritten to its old value plus \<open>L\<close>. When the pointers of the subtree
  are valid in its private buffer, every pointer reachable from the returned root is an
  address of the combined arena, inside the appended part, and is the translation of a
  node reachable from the local root.
\<close>

theorem writeTree_relocates:
  assumes "writeTree buf subtree subtreeRoot res = (ptr, buf')"
  shows "ptr = subtreeRoot + length buf \<and>
         length buf' = length buf + length subtree \<and>
         take (length buf) buf' = buf \<and>
         (\<forall>i<length subtree.
            childMask (buf' ! (length buf + i)) = childMask (subtree ! i) \<and>
            children (buf' ! (length buf + i)) =
              map (\<lambda>p. p + length buf) (children (subtree ! i))) \<and>
         (closed_tree subtree subtreeRoot \<longrightarrow>
            (\<forall>p. reach buf' ptr p \<longrightarrow>
               length buf \<le> p \<and> p < length buf' \<and>
               reach subtree subtreeRoot (p - length buf)))"
proof -
  from assms have ptr: "ptr = subtreeRoot + length buf"
    and buf': "buf' = buf @ map (relocate (length buf)) subtree"
    by (simp_all add: writeTree_def Let_def)
  have "\<forall>i<length subtree.
            childMask (buf' ! (length buf + i)) = childMask (subtree ! i) \<and>
            children (buf' ! (length buf + i)) =
              map (\<lambda>p. p + length buf) (children (subtree ! i))"
    by (simp add: buf' nth_append relocate_def)
  moreover have "closed_tree subtree subtreeRoot \<longrightarrow>
            (\<forall>p. reach buf' ptr p \<longrightarrow>
               length buf \<le> p \<and> p < length buf' \<and>
               reach subtree subtreeRoot (p - length buf))"
  proof (intro impI allI)
    fix p
    assume "closed_tree subtree subtreeRoot" and "reach buf' ptr p"
    then have "length buf \<le> p \<and> p - length buf < length subtree \<and>
        reach subtree subtreeRoot (p - length buf)"
      using reach_writeTree [of subtree subtreeRoot buf p] by (simp add: ptr buf')
    then show "length buf \<le> p \<and> p < length buf' \<and>
        reach subtree subtreeRoot (p - length buf)"
      by (auto simp: buf')
  qed
  ultimately show ?thesis by (simp add: ptr buf')
qed

text \<open>The theorem at an arena holding the dummy node and a subtree of two nodes.\<close>

theorem writeTree_relocates_witness:
  "writeTree [\<lparr>childMask = 21845, children = []\<rparr>]
      [\<lparr>childMask = 6, children = [1]\<rparr>, \<lparr>childMask = 5, children = []\<rparr>] 0 8
     = (1, [\<lparr>childMask = 21845, children = []\<rparr>,
            \<lparr>childMask = 6, children = [2]\<rparr>, \<lparr>childMask = 5, children = []\<rparr>]) \<and>
   closed_tree [\<lparr>childMask = 6, children = [1]\<rparr>, \<lparr>childMask = 5, children = []\<rparr>] 0 \<and>
   reach [\<lparr>childMask = 21845, children = []\<rparr>,
          \<lparr>childMask = 6, children = [2]\<rparr>, \<lparr>childMask = 5, children = []\<rparr>] 1 2 \<and>
   reach [\<lparr>childMask = 6, children = [1]\<rparr>, \<lparr>childMask = 5, children = []\<rparr>] 0 1"
proof -
  let ?sub = "[\<lparr>childMask = 6, children = [1]\<rparr>, \<lparr>childMask = 5, children = []\<rparr>]"
  let ?buf = "[\<lparr>childMask = 21845, children = []\<rparr>,
            \<lparr>childMask = 6, children = [2]\<rparr>, \<lparr>childMask = 5, children = []\<rparr>]"
  have w: "writeTree [\<lparr>childMask = 21845, children = []\<rparr>] ?sub 0 8 = (1, ?buf)"
    by (simp add: writeTree_def relocate_def)
  have c: "closed_tree ?sub 0"
    by (simp add: closed_tree_def)
  have "reach ?buf 1 1" by (rule reach_root)
  then have r: "reach ?buf 1 2"
    by (rule reach_child) simp_all
  from writeTree_relocates [OF w] c
  have pre: "\<forall>p. reach ?buf 1 p \<longrightarrow> reach ?sub 0 (p - 1)"
    by simp
  from pre [rule_format, OF r] have "reach ?sub 0 (2 - 1)" .
  then have "reach ?sub 0 1" by simp
  with w c r show ?thesis by (intro conjI)
qed

subsection \<open>Construction\<close>

lemma sdiv_mult_self: "0 < n \<Longrightarrow> (k * int n) sdiv int n = k"
  by (simp add: signed_divide_int_def sgn_mult abs_mult mult_sgn_abs flip: mult.assoc)

lemma fold_fill:
  "k \<le> length xs \<Longrightarrow>
     fold (\<lambda>i tp. tp[i := v]) [0..<k] xs = replicate k v @ drop k xs"
proof (induction k)
  case 0
  show ?case by simp
next
  case (Suc k)
  then have k: "k < length xs" by simp
  then have "drop k xs = xs ! k # drop (Suc k) xs"
    by (simp add: Cons_nth_drop_Suc)
  with Suc show ?case
    by (simp add: list_update_append replicate_append_same)
qed

lemma fill_treePointers:
  "fold (\<lambda>i tp. tp[i := v]) [0..<n] (map f [0..<n]) = replicate n v"
  using fold_fill [of n "map f [0..<n]" v] by simp

lemma map_nth_table: "length xs = n \<Longrightarrow> map (\<lambda>i. xs ! i) [0..<n] = xs"
  using map_nth [of xs] by auto

lemma VoxelTree_new_cases:
  assumes "0 < TileSubdivisons cfg"
  shows "VoxelTree_new cfg res =
     (if 8 \<le> res sdiv int (TileSubdivisons cfg) \<and> res sdiv int (TileSubdivisons cfg) \<le> 16384
      then Inr ([UpdateTreeBuffer [\<lparr>childMask = 21845, children = []\<rparr>],
                 UpdateUniformBuffer (replicate (tileCount cfg) 0)],
                \<lparr>tileResolution = res sdiv int (TileSubdivisons cfg),
                 voxelWriter = [\<lparr>childMask = 21845, children = []\<rparr>],
                 startedTiles = 0, completedTiles = 0, activeTiles = [],
                 tilesOnGPU = 0, treePointers = replicate (tileCount cfg) 0\<rparr>)
      else Inl AssertionFailed)"
  using assms
  by (simp add: VoxelTree_new_def writeNode_def fill_treePointers updateTreeBuffer_def
      updateUniformBuffer_def Let_def map_nth_table)

text \<open>
  Claim C9, as amended. The asserts check the tile resolution, which is the constructor's
  \<open>resolution\<close> divided by \<open>TileSubdivisons\<close> (truncating): construction succeeds exactly
  when that quotient is at least 8 and at most 16384 and aborts on an assertion
  otherwise. So a resolution of \<open>8 * TileSubdivisons\<close> (tile resolution exactly 8) is
  accepted, and \<open>4 * TileSubdivisons\<close> and \<open>32769 * TileSubdivisons\<close> (tile resolutions 4
  and 32769) are rejected.
\<close>

theorem VoxelTree_new_precondition:
  assumes "0 < TileSubdivisons cfg"
  shows "(VoxelTree_new cfg res = Inl AssertionFailed \<longleftrightarrow>
            res sdiv int (TileSubdivisons cfg) < 8 \<or> 16384 < res sdiv int (TileSubdivisons cfg)) \<and>
         (\<not> isl (VoxelTree_new cfg res) \<longleftrightarrow>
            8 \<le> res sdiv int (TileSubdivisons cfg) \<and> res sdiv int (TileSubdivisons cfg) \<le> 16384) \<and>
         \<not> isl (VoxelTree_new cfg (8 * int (TileSubdivisons cfg))) \<and>
         VoxelTree_new cfg (4 * int (TileSubdivisons cfg)) = Inl AssertionFailed \<and>
         VoxelTree_new cfg (32769 * int (TileSubdivisons cfg)) = Inl AssertionFailed"
  using assms by (auto simp: VoxelTree_new_cases sdiv_mult_self)

theorem VoxelTree_new_precondition_witness:
  "0 < TileSubdivisons demo_config \<and>
   \<not> isl (VoxelTree_new demo_config 16) \<and>
   VoxelTree_new demo_config 8 = Inl AssertionFailed \<and>
   VoxelTree_new demo_config 65538 = Inl AssertionFailed"
  using VoxelTree_new_precondition [of demo_config 16] by (simp add: demo_config_def)

text \<open>
  With two subdivisions per axis the constructor called with resolution 8 aborts (the
  tile resolution is 4), and called with resolution 32769 it passes both asserts (the
  tile resolution is 16384).
\<close>

theorem VoxelTree_new_resolution_counterexample:
  "VoxelTree_new demo_config 8 = Inl AssertionFailed \<and> \<not> isl (VoxelTree_new demo_config 32769)"
  by (simp add: VoxelTree_new_cases demo_config_def signed_divide_int_def)

subsection \<open>Finding and removing a finished builder\<close>

declare findFinishedBuilder_from.simps [simp del]

lemma swap_pop_back:
  assumes "i < length xs"
  shows "pop_back (swap i (length xs - Suc 0) xs) = butlast (xs[i := last xs])"
proof -
  from assms have "xs \<noteq> []" by auto
  then have "last xs = xs ! (length xs - Suc 0)"
    by (simp add: last_conv_nth)
  then show ?thesis
    by (simp add: swap_def pop_back_def butlast_list_update)
qed

lemma mset_remove_swap:
  assumes "i < length xs"
  shows "add_mset (xs ! i) (mset (butlast (xs[i := last xs]))) = mset xs"
proof (cases xs rule: rev_cases)
  case Nil
  with assms show ?thesis by simp
next
  case (snoc ys l)
  show ?thesis
  proof (cases "i = length ys")
    case True
    with snoc show ?thesis by simp
  next
    case False
    with assms snoc have i: "i < length ys" by simp
    then have "add_mset (ys ! i) (mset (ys[i := l])) = add_mset l (mset ys)"
      by (simp add: mset_update)
    with snoc i show ?thesis
      by (simp add: list_update_append nth_append)
  qed
qed

lemma findFinishedBuilder_from_Some:
  "findFinishedBuilder_from i tiles = (Some b, tiles') \<Longrightarrow>
     \<exists>k. i \<le> k \<and> k < length tiles \<and> b = tiles ! k \<and> buildState b = Done \<and>
         (\<forall>j. i \<le> j \<and> j < k \<longrightarrow> buildState (tiles ! j) \<noteq> Done) \<and>
         tiles' = butlast (tiles[k := last tiles])"
proof (induction i tiles rule: findFinishedBuilder_from.induct)
  case (1 i tiles)
  show ?case
  proof (cases "i < length tiles \<and> buildState (tiles ! i) \<noteq> Done")
    case True
    with "1.prems" have "findFinishedBuilder_from (i + 1) tiles = (Some b, tiles')"
      by (simp add: findFinishedBuilder_from.simps [of i tiles])
    with True "1.IH" obtain k where k: "i + 1 \<le> k" "k < length tiles" "b = tiles ! k"
      "buildState b = Done" "\<forall>j. i + 1 \<le> j \<and> j < k \<longrightarrow> buildState (tiles ! j) \<noteq> Done"
      "tiles' = butlast (tiles[k := last tiles])"
      by auto
    have "\<forall>j. i \<le> j \<and> j < k \<longrightarrow> buildState (tiles ! j) \<noteq> Done"
    proof (intro allI impI)
      fix j assume "i \<le> j \<and> j < k"
      then consider "j = i" | "i + 1 \<le> j \<and> j < k" by linarith
      then show "buildState (tiles ! j) \<noteq> Done"
        using True k(5) by cases auto
    qed
    with k show ?thesis by (intro exI [of _ k]) simp
  next
    case False
    with "1.prems" have "i < length tiles" "buildState (tiles ! i) = Done" "b = tiles ! i"
      "tiles' = pop_back (swap i (length tiles - 1) tiles)"
      by (auto simp: findFinishedBuilder_from.simps [of i tiles] Let_def split: if_splits)
    then show ?thesis
      by (intro exI [of _ i]) (auto simp: swap_pop_back)
  qed
qed

lemma findFinishedBuilder_from_None:
  "findFinishedBuilder_from i tiles = (None, tiles') \<Longrightarrow>
     tiles' = tiles \<and> (\<forall>j. i \<le> j \<and> j < length tiles \<longrightarrow> buildState (tiles ! j) \<noteq> Done)"
proof (induction i tiles rule: findFinishedBuilder_from.induct)
  case (1 i tiles)
  show ?case
  proof (cases "i < length tiles")
    case True
    with "1.prems" have nd: "buildState (tiles ! i) \<noteq> Done"
      and rec: "findFinishedBuilder_from (i + 1) tiles = (None, tiles')"
      by (auto simp: findFinishedBuilder_from.simps [of i tiles] Let_def split: if_splits)
    with True "1.IH" have ih: "tiles' = tiles"
      "\<forall>j. i + 1 \<le> j \<and> j < length tiles \<longrightarrow> buildState (tiles ! j) \<noteq> Done"
      by auto
    have "\<forall>j. i \<le> j \<and> j < length tiles \<longrightarrow> buildState (tiles ! j) \<noteq> Done"
    proof (intro allI impI)
      fix j assume "i \<le> j \<and> j < length tiles"
      then consider "j = i" | "i + 1 \<le> j \<and> j < length tiles" by linarith
      then show "buildState (tiles ! j) \<noteq> Done"
        using nd ih(2) by cases auto
    qed
    with ih(1) show ?thesis by simp
  next
    case False
    with "1.prems" show ?thesis
      by (auto simp: findFinishedBuilder_from.simps [of i tiles])
  qed
qed

lemma findFinishedBuilder_Some:
  assumes "findFinishedBuilder tiles = (Some b, tiles')"
  shows "\<exists>k<length tiles. b = tiles ! k \<and> buildState b = Done \<and>
           (\<forall>j<k. buildState (tiles ! j) \<noteq> Done) \<and>
           tiles' = butlast (tiles[k := last tiles]) \<and>
           mset tiles = add_mset b (mset tiles')"
proof -
  from findFinishedBuilder_from_Some [OF assms [unfolded findFinishedBuilder_def]]
  obtain k where k: "k < length tiles" "b = tiles ! k" "buildState b = Done"
    "\<forall>j<k. buildState (tiles ! j) \<noteq> Done" "tiles' = butlast (tiles[k := last tiles])"
    by auto
  from k(1) have "mset tiles = add_mset b (mset tiles')"
    unfolding k(2) k(5) by (rule mset_remove_swap [symmetric])
  with k show ?thesis by blast
qed

lemma findFinishedBuilder_None:
  assumes "findFinishedBuilder tiles = (None, tiles')"
  shows "tiles' = tiles \<and> (\<forall>b\<in>set tiles. buildState b \<noteq> Done)"
  using findFinishedBuilder_from_None [OF assms [unfolded findFinishedBuilder_def]]
  by (auto simp: in_set_conv_nth)

lemma findFinishedBuilder_length:
  "findFinishedBuilder tiles = (Some b, tiles') \<Longrightarrow> Suc (length tiles') = length tiles"
  by (drule findFinishedBuilder_Some) (auto dest: arg_cong [where f = size])

lemma findFinishedBuilder_set:
  "findFinishedBuilder tiles = (Some b, tiles') \<Longrightarrow> set tiles = insert b (set tiles')"
  by (drule findFinishedBuilder_Some) (auto dest: arg_cong [where f = set_mset])

subsection \<open>The operations, written out\<close>

lemma processFirstQueuedTile_eq:
  "processFirstQueuedTile cfg s =
     (if startedTiles s = tileCount cfg then ([], s)
      else ([NewVoxelBuilder (startedTiles s) (tileResolution s)
               (fst (computeDualShadowMaps cfg (tileBounds cfg (startedTiles s))))
               (snd (computeDualShadowMaps cfg (tileBounds cfg (startedTiles s))))],
            s\<lparr>activeTiles := activeTiles s @
                  [new_VoxelBuilder (startedTiles s) (tileResolution s)
                     (fst (computeDualShadowMaps cfg (tileBounds cfg (startedTiles s))))
                     (snd (computeDualShadowMaps cfg (tileBounds cfg (startedTiles s))))],
              startedTiles := Suc (startedTiles s)\<rparr>))"
  by (simp add: processFirstQueuedTile_def Let_def split_beta)

lemma updateBuild_eq:
  "updateBuild cfg s =
     (let r = (if length (activeTiles s) < ConcurrentBuilds cfg
               then processFirstQueuedTile cfg s else ([], s))
      in if tilesOnGPU (snd r) < completedTiles (snd r)
         then (fst r @ [UpdateUniformBuffer (map (\<lambda>i. treePointers (snd r) ! i) [0..<tileCount cfg]),
                        UpdateTreeBuffer (voxelWriter (snd r))],
               (snd r)\<lparr>tilesOnGPU := completedTiles (snd r)\<rparr>)
         else (fst r, snd r))"
  by (simp add: updateBuild_def Let_def split_beta updateUniformBuffer_def updateTreeBuffer_def)

lemma mergeTiles_body_None:
  assumes "findFinishedBuilder (activeTiles s) = (None, tiles)"
  shows "mergeTiles_body s = Inr ([], s)"
  using assms findFinishedBuilder_None [OF assms] by (simp add: mergeTiles_body_def)

lemma mergeTiles_body_Some:
  assumes "findFinishedBuilder (activeTiles s) = (Some b, tiles)"
  shows "mergeTiles_body s =
     (if tileIndex b < length (treePointers s)
      then Inr ([WriteTreePointer (tileIndex b) (rootAddress b + length (voxelWriter s)),
                 DeleteBuilder b],
                s\<lparr>activeTiles := tiles,
                  voxelWriter := voxelWriter s @ map (relocate (length (voxelWriter s))) (tree b),
                  treePointers := (treePointers s)[tileIndex b := rootAddress b + length (voxelWriter s)],
                  completedTiles := Suc (completedTiles s)\<rparr>)
      else Inl OutOfBounds)"
  using assms by (simp add: mergeTiles_body_def writeTree_def Let_def)

subsection \<open>Preservation of the state invariant\<close>

lemma processFirstQueuedTile_inv:
  assumes "pipeline_inv cfg s" and "length (activeTiles s) < ConcurrentBuilds cfg"
  shows "pipeline_inv cfg (snd (processFirstQueuedTile cfg s))"
proof (cases "startedTiles s = tileCount cfg")
  case True
  with assms(1) show ?thesis by (simp add: processFirstQueuedTile_eq)
next
  case False
  have "list_all (\<lambda>b. tileIndex b < Suc (startedTiles s)) (activeTiles s)"
    using assms(1) by (auto simp: pipeline_inv_def list_all_iff)
  with False assms show ?thesis
    by (simp add: processFirstQueuedTile_eq pipeline_inv_def new_VoxelBuilder_def)
qed

lemma processFirstQueuedTile_counters:
  "counters_le s (snd (processFirstQueuedTile cfg s))"
  by (simp add: processFirstQueuedTile_eq counters_le_def)

lemma updateBuild_inv:
  assumes "pipeline_inv cfg s"
  shows "pipeline_inv cfg (snd (updateBuild cfg s))"
proof -
  define r where "r = (if length (activeTiles s) < ConcurrentBuilds cfg
               then processFirstQueuedTile cfg s else ([], s))"
  have "pipeline_inv cfg (snd r)"
    using assms processFirstQueuedTile_inv [of cfg s] by (simp add: r_def)
  then have "pipeline_inv cfg ((snd r)\<lparr>tilesOnGPU := completedTiles (snd r)\<rparr>)"
    by (simp add: pipeline_inv_def)
  with \<open>pipeline_inv cfg (snd r)\<close> show ?thesis
    by (simp add: updateBuild_eq Let_def flip: r_def)
qed

lemma updateBuild_counters:
  "counters_le s (snd (updateBuild cfg s))"
  using processFirstQueuedTile_counters [of s cfg]
  by (auto simp: updateBuild_eq Let_def counters_le_def)

lemma builderFinished_inv:
  assumes "pipeline_inv cfg s"
  shows "pipeline_inv cfg (builderFinished i t r s)"
proof (cases "i < length (activeTiles s) \<and> buildState (activeTiles s ! i) = Building")
  case True
  let ?b = "(activeTiles s ! i)\<lparr>buildState := Done, tree := t, rootAddress := r\<rparr>"
  from True assms have "tileIndex ?b < startedTiles s"
    by (auto simp: pipeline_inv_def list_all_length)
  with assms have "list_all (\<lambda>b. tileIndex b < startedTiles s) ((activeTiles s)[i := ?b])"
    by (auto simp: pipeline_inv_def list_all_iff dest!: subsetD [OF set_update_subset_insert])
  with True assms show ?thesis
    by (simp add: builderFinished_def pipeline_inv_def)
next
  case False
  with assms show ?thesis by (auto simp: builderFinished_def)
qed

lemma builderFinished_counters: "counters_le s (builderFinished i t r s)"
  by (simp add: builderFinished_def counters_le_def)

lemma builderFinished_tileIndex:
  "map tileIndex (activeTiles (builderFinished i t r s)) = map tileIndex (activeTiles s)"
  by (simp add: builderFinished_def map_update list_update_same_conv)

lemma mergeTiles_body_inv:
  assumes "pipeline_inv cfg s"
  shows "\<exists>es s'. mergeTiles_body s = Inr (es, s') \<and> pipeline_inv cfg s' \<and> counters_le s s'"
proof (cases "findFinishedBuilder (activeTiles s)")
  case (Pair found tiles)
  show ?thesis
  proof (cases found)
    case None
    with Pair assms show ?thesis
      by (simp add: mergeTiles_body_None counters_le_def)
  next
    case (Some b)
    with Pair have f: "findFinishedBuilder (activeTiles s) = (Some b, tiles)" by simp
    from findFinishedBuilder_length [OF f] findFinishedBuilder_set [OF f]
    have len: "Suc (length tiles) = length (activeTiles s)"
      and set: "set (activeTiles s) = insert b (set tiles)" .
    from assms set have idx: "tileIndex b < startedTiles s"
      and rest: "list_all (\<lambda>b. tileIndex b < startedTiles s) tiles"
      by (auto simp: pipeline_inv_def list_all_iff)
    with assms have "tileIndex b < length (treePointers s)"
      by (simp add: pipeline_inv_def)
    with assms len rest show ?thesis
      by (simp add: mergeTiles_body_Some [OF f] pipeline_inv_def counters_le_def)
  qed
qed

lemma step_inv:
  assumes "pipeline_inv cfg s"
  shows "\<exists>es s'. step cfg s ev = Inr (es, s') \<and> pipeline_inv cfg s' \<and> counters_le s s'"
proof (cases ev)
  case UpdateBuild
  with updateBuild_inv [OF assms] updateBuild_counters [of s cfg] show ?thesis
    by (cases "updateBuild cfg s") (simp add: step_def)
next
  case MergeIteration
  with mergeTiles_body_inv [OF assms] assms show ?thesis
    by (auto simp: step_def counters_le_def)
next
  case (BuilderFinished i t r)
  with builderFinished_inv [OF assms] builderFinished_counters [of s] show ?thesis
    by (simp add: step_def)
qed

lemma counters_le_trans: "counters_le s s' \<Longrightarrow> counters_le s' s'' \<Longrightarrow> counters_le s s''"
  by (auto simp: counters_le_def)

lemma run_inv:
  "pipeline_inv cfg s \<Longrightarrow>
     \<exists>es s'. run cfg s evs = Inr (es, s') \<and> pipeline_inv cfg s' \<and> counters_le s s'"
proof (induction evs arbitrary: s)
  case Nil
  then show ?case by (simp add: counters_le_def)
next
  case (Cons ev evs)
  from step_inv [OF Cons.prems] obtain es1 s1 where
    s1: "step cfg s ev = Inr (es1, s1)" "pipeline_inv cfg s1" "counters_le s s1" by blast
  from Cons.IH [OF s1(2)] obtain es2 s2 where
    s2: "run cfg s1 evs = Inr (es2, s2)" "pipeline_inv cfg s2" "counters_le s1 s2" by blast
  from s1 s2 counters_le_trans [OF s1(3) s2(3)] show ?case by simp
qed

lemma run_append:
  "run cfg s (evs @ evs') =
     (case run cfg s evs of
        Inl e \<Rightarrow> Inl e
      | Inr (es, s') \<Rightarrow>
          (case run cfg s' evs' of
             Inl e \<Rightarrow> Inl e
           | Inr (es', s'') \<Rightarrow> Inr (es @ es', s'')))"
  by (induction evs arbitrary: s) (auto split: sum.splits)

lemma VoxelTree_new_inv:
  assumes "VoxelTree_new cfg res = Inr (es0, s0)"
  shows "pipeline_inv cfg s0"
proof -
  from assms have "0 < TileSubdivisons cfg"
    by (auto simp: VoxelTree_new_def split: if_splits)
  from assms show ?thesis
    unfolding VoxelTree_new_cases [OF \<open>0 < TileSubdivisons cfg\<close>]
    by (auto simp: pipeline_inv_def split: if_splits)
qed

subsection \<open>Publishing\<close>

text \<open>
  Claim C7. A call of \<open>updateBuild\<close> uploads to the consumer exactly when
  \<open>tilesOnGPU < completedTiles\<close> at the call: then \<open>tilesOnGPU\<close> becomes the observed
  \<open>completedTiles\<close> and the call uploads the root addresses of the table followed by the
  arena; otherwise it uploads nothing and \<open>tilesOnGPU\<close> keeps its value. The call
  changes neither \<open>completedTiles\<close> nor the table nor the arena.
\<close>

theorem updateBuild_publishes:
  assumes "updateBuild cfg s = (es, s')"
  shows "(published es \<noteq> [] \<longleftrightarrow> tilesOnGPU s < completedTiles s) \<and>
         (tilesOnGPU s < completedTiles s \<longrightarrow>
            tilesOnGPU s' = completedTiles s \<and>
            published es = [UpdateUniformBuffer (map (\<lambda>i. treePointers s ! i) [0..<tileCount cfg]),
                            UpdateTreeBuffer (voxelWriter s)]) \<and>
         (\<not> tilesOnGPU s < completedTiles s \<longrightarrow>
            tilesOnGPU s' = tilesOnGPU s \<and> published es = []) \<and>
         completedTiles s' = completedTiles s \<and> treePointers s' = treePointers s \<and>
         voxelWriter s' = voxelWriter s"
  using assms
  by (auto simp: updateBuild_eq processFirstQueuedTile_eq Let_def split: if_splits)

text \<open>
  The theorem at a state with an unpublished merge, where the call uploads, and at the
  same state once published, where it does not.
\<close>

theorem updateBuild_publishes_witness:
  "tilesOnGPU demo_state < completedTiles demo_state \<and>
   published (fst (updateBuild demo_config demo_state)) =
     [UpdateUniformBuffer [0, 1, 0, 0], UpdateTreeBuffer (voxelWriter demo_state)] \<and>
   tilesOnGPU (snd (updateBuild demo_config demo_state)) = 1 \<and>
   \<not> tilesOnGPU (demo_state\<lparr>tilesOnGPU := 1\<rparr>) < completedTiles (demo_state\<lparr>tilesOnGPU := 1\<rparr>) \<and>
   published (fst (updateBuild demo_config (demo_state\<lparr>tilesOnGPU := 1\<rparr>))) = [] \<and>
   tilesOnGPU (snd (updateBuild demo_config (demo_state\<lparr>tilesOnGPU := 1\<rparr>))) = 1"
proof -
  have tc: "tileCount demo_config = 4"
    by (simp add: tileCount_def demo_config_def)
  have tp: "map (\<lambda>i. treePointers demo_state ! i) [0..<4] = [0, 1, 0, 0]"
    by (simp add: demo_state_def upt_rec)
  show ?thesis
    using updateBuild_publishes [of demo_config demo_state
        "fst (updateBuild demo_config demo_state)" "snd (updateBuild demo_config demo_state)"]
      updateBuild_publishes [of demo_config "demo_state\<lparr>tilesOnGPU := 1\<rparr>"
        "fst (updateBuild demo_config (demo_state\<lparr>tilesOnGPU := 1\<rparr>))"
        "snd (updateBuild demo_config (demo_state\<lparr>tilesOnGPU := 1\<rparr>))"]
    by (simp add: tc tp) (simp add: demo_state_def)
qed

subsection \<open>The concurrency cap\<close>

lemma mergeTiles_body_removes:
  assumes "mergeTiles_body s = Inr (es, s')"
  shows "mset (activeTiles s') \<subseteq># mset (activeTiles s)"
proof (cases "findFinishedBuilder (activeTiles s)")
  case (Pair found tiles)
  show ?thesis
  proof (cases found)
    case None
    with Pair assms show ?thesis by (simp add: mergeTiles_body_None)
  next
    case (Some b)
    with Pair have f: "findFinishedBuilder (activeTiles s) = (Some b, tiles)" by simp
    from findFinishedBuilder_Some [OF f] have "mset (activeTiles s) = add_mset b (mset tiles)"
      by blast
    moreover from assms have "activeTiles s' = tiles"
      by (auto simp: mergeTiles_body_Some [OF f] split: if_splits)
    ultimately show ?thesis by simp
  qed
qed

text \<open>
  Claim C6. In every state that a run reaches from the constructor's state, the number
  of active builders is at most \<open>ConcurrentBuilds\<close>. There, a driver call leaves the
  collection alone unless its size is below the cap, an admission adds one builder at
  the end (or nothing, when all tiles are started), and a merge iteration only removes.
\<close>

theorem active_builders_bounded:
  assumes "VoxelTree_new cfg res = Inr (es0, s0)"
  shows "\<exists>es s.
           run cfg s0 evs = Inr (es, s) \<and>
           length (activeTiles s) \<le> ConcurrentBuilds cfg \<and>
           (\<not> length (activeTiles s) < ConcurrentBuilds cfg \<longrightarrow>
              activeTiles (snd (updateBuild cfg s)) = activeTiles s) \<and>
           (length (activeTiles s) < ConcurrentBuilds cfg \<longrightarrow>
              activeTiles (snd (updateBuild cfg s)) = activeTiles (snd (processFirstQueuedTile cfg s))) \<and>
           (\<exists>new. length new = (if startedTiles s = tileCount cfg then 0 else 1) \<and>
              activeTiles (snd (processFirstQueuedTile cfg s)) = activeTiles s @ new) \<and>
           (\<forall>es' s'. mergeTiles_body s = Inr (es', s') \<longrightarrow>
              mset (activeTiles s') \<subseteq># mset (activeTiles s))"
proof -
  from run_inv [OF VoxelTree_new_inv [OF assms], of evs] obtain es s where
    s: "run cfg s0 evs = Inr (es, s)" "pipeline_inv cfg s" by blast
  have "\<not> length (activeTiles s) < ConcurrentBuilds cfg \<longrightarrow>
          activeTiles (snd (updateBuild cfg s)) = activeTiles s"
    by (simp add: updateBuild_eq Let_def)
  moreover have "length (activeTiles s) < ConcurrentBuilds cfg \<longrightarrow>
          activeTiles (snd (updateBuild cfg s)) = activeTiles (snd (processFirstQueuedTile cfg s))"
    by (simp add: updateBuild_eq Let_def)
  moreover have "\<exists>new. length new = (if startedTiles s = tileCount cfg then 0 else 1) \<and>
              activeTiles (snd (processFirstQueuedTile cfg s)) = activeTiles s @ new"
    by (simp add: processFirstQueuedTile_eq)
  moreover have "\<forall>es' s'. mergeTiles_body s = Inr (es', s') \<longrightarrow>
              mset (activeTiles s') \<subseteq># mset (activeTiles s)"
    using mergeTiles_body_removes by blast
  moreover from s(2) have "length (activeTiles s) \<le> ConcurrentBuilds cfg"
    by (simp add: pipeline_inv_def)
  ultimately show ?thesis using s(1) by blast
qed

text \<open>The theorem for a run in which the third driver call finds the cap of two reached.\<close>

theorem active_builders_bounded_witness:
  "\<exists>es0 s0 es s. VoxelTree_new demo_config 16 = Inr (es0, s0) \<and>
     run demo_config s0 [UpdateBuild, UpdateBuild, UpdateBuild] = Inr (es, s) \<and>
     length (activeTiles s) = 2 \<and> ConcurrentBuilds demo_config = 2 \<and>
     activeTiles (snd (updateBuild demo_config s)) = activeTiles s"
proof -
  have "0 < TileSubdivisons demo_config" by (simp add: demo_config_def)
  from VoxelTree_new_cases [OF this, of 16]
  obtain es0 s0 where new: "VoxelTree_new demo_config 16 = Inr (es0, s0)"
    by (simp add: demo_config_def signed_divide_int_def)
  from active_builders_bounded [OF new, of "[UpdateBuild, UpdateBuild, UpdateBuild]"]
  obtain es s where r: "run demo_config s0 [UpdateBuild, UpdateBuild, UpdateBuild] = Inr (es, s)"
    and keep: "\<not> length (activeTiles s) < ConcurrentBuilds demo_config \<longrightarrow>
           activeTiles (snd (updateBuild demo_config s)) = activeTiles s"
    by blast
  from new r have "s = snd (projr (run demo_config (snd (projr (VoxelTree_new demo_config 16)))
      [UpdateBuild, UpdateBuild, UpdateBuild]))"
    by simp
  then have len: "length (activeTiles s) = 2"
    by (simp add: VoxelTree_new_cases demo_config_def signed_divide_int_def step_def
        updateBuild_eq processFirstQueuedTile_eq tileCount_def Let_def)
  have cap: "ConcurrentBuilds demo_config = 2" by (simp add: demo_config_def)
  from keep len cap have "activeTiles (snd (updateBuild demo_config s)) = activeTiles s"
    by simp
  with new r len cap show ?thesis by blast
qed

subsection \<open>Effects of a run\<close>

lemma admitted_append: "admitted (es @ es') = admitted es @ admitted es'"
  by (induction es rule: admitted.induct) auto

lemma written_append: "written (es @ es') = written es @ written es'"
  by (induction es rule: written.induct) auto

lemma updateBuild_effects:
  "admitted (fst (updateBuild cfg s)) =
     (if length (activeTiles s) < ConcurrentBuilds cfg \<and> startedTiles s \<noteq> tileCount cfg
      then [startedTiles s] else [])"
  "written (fst (updateBuild cfg s)) = []"
  by (simp_all add: updateBuild_eq processFirstQueuedTile_eq Let_def admitted_append
      written_append)

lemma updateBuild_state:
  "startedTiles (snd (updateBuild cfg s)) =
     (if length (activeTiles s) < ConcurrentBuilds cfg \<and> startedTiles s \<noteq> tileCount cfg
      then Suc (startedTiles s) else startedTiles s)"
  "map tileIndex (activeTiles (snd (updateBuild cfg s))) =
     (if length (activeTiles s) < ConcurrentBuilds cfg \<and> startedTiles s \<noteq> tileCount cfg
      then map tileIndex (activeTiles s) @ [startedTiles s] else map tileIndex (activeTiles s))"
  "treePointers (snd (updateBuild cfg s)) = treePointers s"
  "voxelWriter (snd (updateBuild cfg s)) = voxelWriter s"
  by (simp_all add: updateBuild_eq processFirstQueuedTile_eq Let_def new_VoxelBuilder_def)

lemma mset_set_upt_Suc: "mset_set {0..<Suc n} = add_mset n (mset_set {0..<n})"
  by (simp add: atLeastLessThanSuc)

lemma updateBuild_trace_inv:
  assumes "trace_inv T s"
  shows "trace_inv (T @ fst (updateBuild cfg s)) (snd (updateBuild cfg s))"
  using assms
  by (simp add: trace_inv_def admitted_append written_append updateBuild_effects
      updateBuild_state mset_set_upt_Suc)

lemma mergeTiles_body_trace_inv:
  assumes "trace_inv T s" and "mergeTiles_body s = Inr (es, s')"
  shows "trace_inv (T @ es) s'"
proof (cases "findFinishedBuilder (activeTiles s)")
  case (Pair found tiles)
  show ?thesis
  proof (cases found)
    case None
    with Pair assms show ?thesis by (simp add: mergeTiles_body_None)
  next
    case (Some b)
    with Pair have f: "findFinishedBuilder (activeTiles s) = (Some b, tiles)" by simp
    from findFinishedBuilder_Some [OF f] have "mset (activeTiles s) = add_mset b (mset tiles)"
      by blast
    then have "image_mset tileIndex (mset (activeTiles s)) =
        add_mset (tileIndex b) (image_mset tileIndex (mset tiles))"
      by simp
    moreover from assms(2) have "written es = [tileIndex b]" "admitted es = []"
      "activeTiles s' = tiles" "startedTiles s' = startedTiles s"
      by (auto simp: mergeTiles_body_Some [OF f] split: if_splits)
    ultimately show ?thesis
      using assms(1) by (simp add: trace_inv_def admitted_append written_append)
  qed
qed

lemma step_trace_inv:
  assumes "trace_inv T s" and "step cfg s ev = Inr (es, s')"
  shows "trace_inv (T @ es) s'"
proof (cases ev)
  case UpdateBuild
  with assms(2) have "es = fst (updateBuild cfg s)" "s' = snd (updateBuild cfg s)"
    by (auto simp: step_def)
  with updateBuild_trace_inv [OF assms(1)] show ?thesis by simp
next
  case MergeIteration
  with assms mergeTiles_body_trace_inv [OF assms(1)] show ?thesis
    by (auto simp: step_def split: if_splits)
next
  case (BuilderFinished i t r)
  with assms(2) have "es = []" "s' = builderFinished i t r s"
    by (auto simp: step_def)
  moreover have "startedTiles (builderFinished i t r s) = startedTiles s"
    by (simp add: builderFinished_def)
  ultimately show ?thesis
    using assms(1) by (simp add: trace_inv_def builderFinished_tileIndex)
qed

lemma run_trace_inv:
  "trace_inv T s \<Longrightarrow> run cfg s evs = Inr (es, s') \<Longrightarrow> trace_inv (T @ es) s'"
proof (induction evs arbitrary: T s es)
  case Nil
  then show ?case by simp
next
  case (Cons ev evs)
  from Cons.prems(2) obtain es1 s1 es2 where
    s1: "step cfg s ev = Inr (es1, s1)" and s2: "run cfg s1 evs = Inr (es2, s')"
    and es: "es = es1 @ es2"
    by (auto split: sum.splits)
  from Cons.IH [OF step_trace_inv [OF Cons.prems(1) s1] s2] es show ?case by simp
qed

lemma VoxelTree_new_state:
  assumes "VoxelTree_new cfg res = Inr (es0, s0)"
  shows "es0 = [UpdateTreeBuffer [\<lparr>childMask = 21845, children = []\<rparr>],
                UpdateUniformBuffer (replicate (tileCount cfg) 0)]"
    and "s0 = \<lparr>tileResolution = res sdiv int (TileSubdivisons cfg),
               voxelWriter = [\<lparr>childMask = 21845, children = []\<rparr>],
               startedTiles = 0, completedTiles = 0, activeTiles = [],
               tilesOnGPU = 0, treePointers = replicate (tileCount cfg) 0\<rparr>"
proof -
  from assms have "0 < TileSubdivisons cfg"
    by (auto simp: VoxelTree_new_def split: if_splits)
  from assms show "es0 = [UpdateTreeBuffer [\<lparr>childMask = 21845, children = []\<rparr>],
                UpdateUniformBuffer (replicate (tileCount cfg) 0)]"
    and "s0 = \<lparr>tileResolution = res sdiv int (TileSubdivisons cfg),
               voxelWriter = [\<lparr>childMask = 21845, children = []\<rparr>],
               startedTiles = 0, completedTiles = 0, activeTiles = [],
               tilesOnGPU = 0, treePointers = replicate (tileCount cfg) 0\<rparr>"
    unfolding VoxelTree_new_cases [OF \<open>0 < TileSubdivisons cfg\<close>]
    by (auto split: if_splits)
qed

lemma VoxelTree_new_trace_inv:
  assumes "VoxelTree_new cfg res = Inr (es0, s0)"
  shows "trace_inv es0 s0"
  by (simp add: VoxelTree_new_state [OF assms] trace_inv_def)

subsection \<open>Admission\<close>

text \<open>
  Claim C4. In a state reached from the constructor's state, \<open>processFirstQueuedTile\<close>
  does nothing when \<open>startedTiles = N * N\<close>; otherwise it renders the depth grids for the
  bounds of tile \<open>startedTiles\<close>, creates one builder for that tile index from them,
  appends it to the active builders and increments \<open>startedTiles\<close>. The tiles admitted
  since construction are \<open>0, 1, ..., startedTiles - 1\<close> in this order, so once
  \<open>startedTiles\<close> is \<open>N * N\<close> every tile index below \<open>N * N\<close> was admitted exactly once.
\<close>

theorem tiles_admitted_once_in_order:
  assumes "VoxelTree_new cfg res = Inr (es0, s0)" and "run cfg s0 evs = Inr (es, s)"
  shows "(startedTiles s = tileCount cfg \<longrightarrow> processFirstQueuedTile cfg s = ([], s)) \<and>
         (startedTiles s \<noteq> tileCount cfg \<longrightarrow>
            (\<exists>entry exit.
               computeDualShadowMaps cfg (tileBounds cfg (startedTiles s)) = (entry, exit) \<and>
               processFirstQueuedTile cfg s =
                 ([NewVoxelBuilder (startedTiles s) (tileResolution s) entry exit],
                  s\<lparr>activeTiles := activeTiles s @
                        [\<lparr>tileIndex = startedTiles s, resolution = tileResolution s,
                          entryDepths = entry, exitDepths = exit, buildState = Building,
                          tree = [], rootAddress = 0\<rparr>],
                    startedTiles := startedTiles s + 1\<rparr>))) \<and>
         admitted (es0 @ es) = [0..<startedTiles s] \<and>
         (startedTiles s = tileCount cfg \<longrightarrow>
            admitted (es0 @ es) = [0..<TileSubdivisons cfg * TileSubdivisons cfg])"
proof -
  from run_trace_inv [OF VoxelTree_new_trace_inv [OF assms(1)] assms(2)]
  have adm: "admitted (es0 @ es) = [0..<startedTiles s]"
    by (simp add: trace_inv_def)
  have "startedTiles s \<noteq> tileCount cfg \<longrightarrow>
            (\<exists>entry exit.
               computeDualShadowMaps cfg (tileBounds cfg (startedTiles s)) = (entry, exit) \<and>
               processFirstQueuedTile cfg s =
                 ([NewVoxelBuilder (startedTiles s) (tileResolution s) entry exit],
                  s\<lparr>activeTiles := activeTiles s @
                        [\<lparr>tileIndex = startedTiles s, resolution = tileResolution s,
                          entryDepths = entry, exitDepths = exit, buildState = Building,
                          tree = [], rootAddress = 0\<rparr>],
                    startedTiles := startedTiles s + 1\<rparr>))"
    by (cases "computeDualShadowMaps cfg (tileBounds cfg (startedTiles s))")
      (simp add: processFirstQueuedTile_eq new_VoxelBuilder_def)
  moreover have "startedTiles s = tileCount cfg \<longrightarrow> processFirstQueuedTile cfg s = ([], s)"
    by (simp add: processFirstQueuedTile_eq)
  ultimately show ?thesis
    using adm by (simp add: tileCount_def)
qed

text \<open>
  The theorem for four tiles: at the constructor's state, where tile 0 is admitted next,
  and after a run that has admitted all four tiles.
\<close>

theorem tiles_admitted_once_in_order_witness:
  "\<exists>es0 s0 es s.
     VoxelTree_new demo_config 16 = Inr (es0, s0) \<and>
     run demo_config s0
       [UpdateBuild, UpdateBuild, BuilderFinished 0 [\<lparr>childMask = 5, children = []\<rparr>] 0,
        MergeIteration, BuilderFinished 0 [\<lparr>childMask = 6, children = []\<rparr>] 0,
        MergeIteration, UpdateBuild, UpdateBuild, UpdateBuild] = Inr (es, s) \<and>
     startedTiles s = tileCount demo_config \<and>
     admitted (es0 @ es) = [0, 1, 2, 3] \<and>
     processFirstQueuedTile demo_config s = ([], s) \<and>
     startedTiles s0 \<noteq> tileCount demo_config \<and>
     fst (processFirstQueuedTile demo_config s0) = [NewVoxelBuilder 0 8 0 100]"
proof -
  let ?evs = "[UpdateBuild, UpdateBuild, BuilderFinished 0 [\<lparr>childMask = 5, children = []\<rparr>] 0,
        MergeIteration, BuilderFinished 0 [\<lparr>childMask = 6, children = []\<rparr>] 0,
        MergeIteration, UpdateBuild, UpdateBuild, UpdateBuild]"
  have "0 < TileSubdivisons demo_config" by (simp add: demo_config_def)
  from VoxelTree_new_cases [OF this, of 16]
  obtain es0 s0 where new: "VoxelTree_new demo_config 16 = Inr (es0, s0)"
    by (simp add: demo_config_def signed_divide_int_def)
  from run_inv [OF VoxelTree_new_inv [OF new], of ?evs]
  obtain es s where r: "run demo_config s0 ?evs = Inr (es, s)" by blast
  have tc: "tileCount demo_config = 4" by (simp add: tileCount_def demo_config_def)
  from new have s0: "s0 = snd (projr (VoxelTree_new demo_config 16))" by simp
  have started0: "startedTiles s0 = 0" and res0: "tileResolution s0 = 8"
    unfolding s0
    by (simp_all add: VoxelTree_new_cases demo_config_def signed_divide_int_def)
  from r have "s = snd (projr (run demo_config s0 ?evs))" by simp
  then have started: "startedTiles s = 4"
    unfolding s0
    by (simp add: VoxelTree_new_cases demo_config_def signed_divide_int_def step_def
        updateBuild_eq processFirstQueuedTile_eq tileCount_def Let_def builderFinished_def
        new_VoxelBuilder_def mergeTiles_body_def findFinishedBuilder_def
        findFinishedBuilder_from.simps swap_def pop_back_def writeTree_def)
  from tiles_admitted_once_in_order [OF new r] started tc
  have "admitted (es0 @ es) = [0, 1, 2, 3]" "processFirstQueuedTile demo_config s = ([], s)"
    by (simp_all add: upt_rec)
  moreover from tiles_admitted_once_in_order [OF new, of "[]" "[]" s0] started0 res0 tc
  have "fst (processFirstQueuedTile demo_config s0) = [NewVoxelBuilder 0 8 0 100]"
    by (auto simp: demo_config_def)
  ultimately show ?thesis
    using new r started started0 tc by (intro exI [of _ es0] exI [of _ s0] exI [of _ es] exI [of _ s]) simp
qed

subsection \<open>The root pointer table\<close>

lemma mergeTiles_body_table_inv:
  assumes "table_inv T s" and "mergeTiles_body s = Inr (es, s')"
  shows "table_inv (T @ es) s'"
proof (cases "findFinishedBuilder (activeTiles s)")
  case (Pair found tiles)
  show ?thesis
  proof (cases found)
    case None
    with Pair assms show ?thesis by (simp add: mergeTiles_body_None)
  next
    case (Some b)
    with Pair have f: "findFinishedBuilder (activeTiles s) = (Some b, tiles)" by simp
    from assms(2) have es: "written es = [tileIndex b]"
      and tp: "treePointers s' =
        (treePointers s)[tileIndex b := rootAddress b + length (voxelWriter s)]"
      and vw: "voxelWriter s' =
        voxelWriter s @ map (relocate (length (voxelWriter s))) (tree b)"
      by (auto simp: mergeTiles_body_Some [OF f] split: if_splits)
    from assms(1) have "Suc 0 \<le> length (voxelWriter s)"
      by (cases "voxelWriter s") (auto simp: table_inv_def)
    with assms(1) show ?thesis
      by (auto simp: table_inv_def written_append es tp vw)
  qed
qed

lemma step_table_inv:
  assumes "table_inv T s" and "step cfg s ev = Inr (es, s')"
  shows "table_inv (T @ es) s'"
proof (cases ev)
  case UpdateBuild
  with assms(2) have "es = fst (updateBuild cfg s)" "s' = snd (updateBuild cfg s)"
    by (auto simp: step_def)
  with assms(1) show ?thesis
    by (simp add: table_inv_def written_append updateBuild_effects updateBuild_state)
next
  case MergeIteration
  with assms mergeTiles_body_table_inv [OF assms(1)] show ?thesis
    by (auto simp: step_def split: if_splits)
next
  case (BuilderFinished i t r)
  with assms show ?thesis
    by (auto simp: step_def table_inv_def builderFinished_def)
qed

lemma run_table_inv:
  "table_inv T s \<Longrightarrow> run cfg s evs = Inr (es, s') \<Longrightarrow> table_inv (T @ es) s'"
proof (induction evs arbitrary: T s es)
  case Nil
  then show ?case by simp
next
  case (Cons ev evs)
  from Cons.prems(2) obtain es1 s1 es2 where
    s1: "step cfg s ev = Inr (es1, s1)" and s2: "run cfg s1 evs = Inr (es2, s')"
    and es: "es = es1 @ es2"
    by (auto split: sum.splits)
  from Cons.IH [OF step_table_inv [OF Cons.prems(1) s1] s2] es show ?case by simp
qed

lemma VoxelTree_new_table_inv:
  assumes "VoxelTree_new cfg res = Inr (es0, s0)"
  shows "table_inv es0 s0"
  by (simp add: VoxelTree_new_state [OF assms] table_inv_def)

lemma run_reaches_inv:
  assumes "VoxelTree_new cfg res = Inr (es0, s0)" and "run cfg s0 evs = Inr (es, s)"
  shows "pipeline_inv cfg s"
  using run_inv [OF VoxelTree_new_inv [OF assms(1)], of evs] assms(2) by auto

lemma written_distinct:
  assumes "trace_inv T s"
  shows "distinct (written T)"
proof -
  from assms have "mset (written T @ map tileIndex (activeTiles s)) =
      mset [0..<startedTiles s]"
    by (simp add: trace_inv_def)
  then have "distinct (written T @ map tileIndex (activeTiles s)) \<longleftrightarrow>
      distinct [0..<startedTiles s]"
    by (rule mset_eq_imp_distinct_iff)
  then show ?thesis by simp
qed

text \<open>
  Claim C5. The constructor writes the dummy node (child mask 21845) once, at address 0
  of the arena, and its loop sets every entry of the table, whatever the entry held
  before, to that address. In a state reached
  from there, merging the builder that the loop finds writes entry \<open>tileIndex\<close> of the
  table, inside the table, and no other entry. No entry is written twice, entries not
  written still hold the address of the dummy node, which is still in the arena, and
  once \<open>completedTiles\<close> is \<open>N * N\<close> every entry has been written exactly once.
\<close>

theorem root_pointer_table_written_once:
  assumes "VoxelTree_new cfg res = Inr (es0, s0)" and "run cfg s0 evs = Inr (es, s)"
  shows "voxelWriter s0 = [\<lparr>childMask = 21845, children = []\<rparr>] \<and>
         treePointers s0 = replicate (tileCount cfg) 0 \<and>
         (\<forall>t<tileCount cfg.
            voxelWriter s0 ! (treePointers s0 ! t) = \<lparr>childMask = 21845, children = []\<rparr>) \<and>
         (\<forall>b tiles. findFinishedBuilder (activeTiles s) = (Some b, tiles) \<longrightarrow>
            tileIndex b < length (treePointers s) \<and>
            (\<exists>s'. mergeTiles_body s =
                    Inr ([WriteTreePointer (tileIndex b) (rootAddress b + length (voxelWriter s)),
                          DeleteBuilder b], s') \<and>
                  treePointers s' =
                    (treePointers s)[tileIndex b := rootAddress b + length (voxelWriter s)])) \<and>
         distinct (written (es0 @ es)) \<and>
         length (treePointers s) = tileCount cfg \<and>
         (\<forall>t<tileCount cfg. t \<notin> set (written (es0 @ es)) \<longrightarrow> treePointers s ! t = 0) \<and>
         voxelWriter s ! 0 = \<lparr>childMask = 21845, children = []\<rparr> \<and>
         (completedTiles s = tileCount cfg \<longrightarrow>
            mset (written (es0 @ es)) = mset [0..<tileCount cfg])"
proof -
  note inv = run_reaches_inv [OF assms]
  note tr = run_trace_inv [OF VoxelTree_new_trace_inv [OF assms(1)] assms(2)]
  note tb = run_table_inv [OF VoxelTree_new_table_inv [OF assms(1)] assms(2)]
  have merge: "\<forall>b tiles. findFinishedBuilder (activeTiles s) = (Some b, tiles) \<longrightarrow>
            tileIndex b < length (treePointers s) \<and>
            (\<exists>s'. mergeTiles_body s =
                    Inr ([WriteTreePointer (tileIndex b) (rootAddress b + length (voxelWriter s)),
                          DeleteBuilder b], s') \<and>
                  treePointers s' =
                    (treePointers s)[tileIndex b := rootAddress b + length (voxelWriter s)])"
  proof (intro allI impI)
    fix b tiles
    assume f: "findFinishedBuilder (activeTiles s) = (Some b, tiles)"
    from findFinishedBuilder_set [OF f] inv have "tileIndex b < length (treePointers s)"
      by (auto simp: pipeline_inv_def list_all_iff)
    then show "tileIndex b < length (treePointers s) \<and>
            (\<exists>s'. mergeTiles_body s =
                    Inr ([WriteTreePointer (tileIndex b) (rootAddress b + length (voxelWriter s)),
                          DeleteBuilder b], s') \<and>
                  treePointers s' =
                    (treePointers s)[tileIndex b := rootAddress b + length (voxelWriter s)])"
      by (simp add: mergeTiles_body_Some [OF f])
  qed
  have full: "completedTiles s = tileCount cfg \<longrightarrow>
            mset (written (es0 @ es)) = mset [0..<tileCount cfg]"
  proof
    assume "completedTiles s = tileCount cfg"
    with inv have "length (activeTiles s) = 0" "startedTiles s = tileCount cfg"
      unfolding pipeline_inv_def by linarith+
    then have "activeTiles s = []" "startedTiles s = tileCount cfg"
      by simp_all
    with tr show "mset (written (es0 @ es)) = mset [0..<tileCount cfg]"
      by (simp add: trace_inv_def)
  qed
  from tb have "voxelWriter s ! 0 = \<lparr>childMask = 21845, children = []\<rparr>"
    by (cases "voxelWriter s") (auto simp: table_inv_def)
  moreover from tb inv have "\<forall>t<tileCount cfg. t \<notin> set (written (es0 @ es)) \<longrightarrow>
      treePointers s ! t = 0"
    by (simp add: table_inv_def pipeline_inv_def)
  moreover from inv have "length (treePointers s) = tileCount cfg"
    by (simp add: pipeline_inv_def)
  ultimately show ?thesis
    using merge full written_distinct [OF tr]
    by (simp add: VoxelTree_new_state [OF assms(1)])
qed

lemmas run_eval =
  VoxelTree_new_cases demo_config_def signed_divide_int_def step_def updateBuild_eq
  processFirstQueuedTile_eq tileCount_def Let_def builderFinished_def new_VoxelBuilder_def
  mergeTiles_body_def findFinishedBuilder_def findFinishedBuilder_from.simps swap_def
  pop_back_def writeTree_def relocate_def

text \<open>
  The theorem for four tiles, whose table holds 4711, 4712, 4713, 4714 before the
  constructor runs: after the run to completion, and at the moment of the first merge,
  when the builder of tile 1 has finished.
\<close>

theorem root_pointer_table_written_once_witness:
  "\<exists>es0 s0 es s es1 s1 b tiles.
     VoxelTree_new demo_config 16 = Inr (es0, s0) \<and>
     map (uninitialised demo_config) [0, 1, 2, 3] = [4711, 4712, 4713, 4714] \<and>
     treePointers s0 = [0, 0, 0, 0] \<and>
     run demo_config s0 demo_events = Inr (es, s) \<and>
     completedTiles s = tileCount demo_config \<and>
     written (es0 @ es) = [1, 0, 3, 2] \<and>
     treePointers s = [3, 1, 5, 4] \<and>
     mset (written (es0 @ es)) = mset [0..<tileCount demo_config] \<and>
     run demo_config s0 (take 3 demo_events) = Inr (es1, s1) \<and>
     findFinishedBuilder (activeTiles s1) = (Some b, tiles) \<and>
     tileIndex b = 1 \<and> tileIndex b < length (treePointers s1) \<and>
     treePointers (snd (projr (mergeTiles_body s1))) = [0, 1, 0, 0]"
proof -
  have "0 < TileSubdivisons demo_config" by (simp add: demo_config_def)
  from VoxelTree_new_cases [OF this, of 16]
  obtain es0 s0 where new: "VoxelTree_new demo_config 16 = Inr (es0, s0)"
    by (simp add: demo_config_def signed_divide_int_def)
  from new have s0: "s0 = snd (projr (VoxelTree_new demo_config 16))"
    and es0: "es0 = fst (projr (VoxelTree_new demo_config 16))" by simp_all
  have tc: "tileCount demo_config = 4" by (simp add: tileCount_def demo_config_def)
  from run_inv [OF VoxelTree_new_inv [OF new], of demo_events]
  obtain es s where r: "run demo_config s0 demo_events = Inr (es, s)" by blast
  from run_inv [OF VoxelTree_new_inv [OF new], of "take 3 demo_events"]
  obtain es1 s1 where r1: "run demo_config s0 (take 3 demo_events) = Inr (es1, s1)" by blast
  from r have s: "s = snd (projr (run demo_config s0 demo_events))"
    and es: "es = fst (projr (run demo_config s0 demo_events))" by simp_all
  from r1 have s1: "s1 = snd (projr (run demo_config s0 (take 3 demo_events)))" by simp
  have rep: "replicate 4 (0::nat) = [0, 0, 0, 0]" by (simp add: numeral_eq_Suc)
  have completed: "completedTiles s = 4" and table: "treePointers s = [3, 1, 5, 4]"
    unfolding s s0 by (simp_all add: demo_events_def run_eval rep)
  have wr: "written (es0 @ es) = [1, 0, 3, 2]"
    unfolding es es0 s0 by (simp add: demo_events_def run_eval)
  have active1: "activeTiles s1 =
      [new_VoxelBuilder 0 8 0 100,
       (new_VoxelBuilder 1 8 1 101)\<lparr>buildState := Done,
          tree := [\<lparr>childMask = 6, children = [1]\<rparr>, \<lparr>childMask = 5, children = []\<rparr>],
          rootAddress := 0\<rparr>]"
    and table1: "treePointers s1 = [0, 0, 0, 0]"
    and writer1: "voxelWriter s1 = [\<lparr>childMask = 21845, children = []\<rparr>]"
    unfolding s1 s0 by (simp_all add: demo_events_def run_eval rep)
  define b where "b = (new_VoxelBuilder 1 8 (1::nat) 101)\<lparr>buildState := Done,
          tree := [\<lparr>childMask = 6, children = [1]\<rparr>, \<lparr>childMask = 5, children = []\<rparr>],
          rootAddress := 0\<rparr>"
  define tiles where "tiles = [new_VoxelBuilder 0 8 (0::nat) 100]"
  have f: "findFinishedBuilder (activeTiles s1) = (Some b, tiles)"
    unfolding active1 b_def tiles_def
    by (simp add: findFinishedBuilder_def findFinishedBuilder_from.simps new_VoxelBuilder_def
        Let_def swap_def pop_back_def)
  have b: "tileIndex b = 1" "rootAddress b = 0"
    by (simp_all add: b_def new_VoxelBuilder_def)
  from root_pointer_table_written_once [OF new r] completed tc
  have full: "mset (written (es0 @ es)) = mset [0..<tileCount demo_config]"
    and init: "treePointers s0 = [0, 0, 0, 0]"
    by (simp_all add: rep)
  from root_pointer_table_written_once [OF new r1] f
  obtain s' where inside: "tileIndex b < length (treePointers s1)"
    and body: "mergeTiles_body s1 =
        Inr ([WriteTreePointer (tileIndex b) (rootAddress b + length (voxelWriter s1)),
              DeleteBuilder b], s')"
    and upd: "treePointers s' =
        (treePointers s1)[tileIndex b := rootAddress b + length (voxelWriter s1)]"
    by blast
  from body upd b have "treePointers (snd (projr (mergeTiles_body s1))) = [0, 1, 0, 0]"
    by (simp add: table1 writer1)
  moreover have "map (uninitialised demo_config) [0, 1, 2, 3] = [4711, 4712, 4713, 4714]"
    by (simp add: demo_config_def)
  ultimately show ?thesis
    using new init r completed tc wr table full r1 f b(1) inside
    by (intro exI [of _ es0] exI [of _ s0] exI [of _ es] exI [of _ s] exI [of _ es1]
        exI [of _ s1] exI [of _ b] exI [of _ tiles]) simp
qed

subsection \<open>The merge loop\<close>

declare mergeTiles.simps [simp del]

lemma findFinishedBuilder_finds:
  assumes "\<exists>b\<in>set tiles. buildState b = Done"
  shows "\<exists>b tiles'. findFinishedBuilder tiles = (Some b, tiles')"
proof (cases "findFinishedBuilder tiles")
  case (Pair found tiles')
  show ?thesis
  proof (cases found)
    case None
    with Pair findFinishedBuilder_None [of tiles tiles'] assms show ?thesis by auto
  next
    case (Some b)
    with Pair show ?thesis by simp
  qed
qed

lemma findFinishedBuilder_misses:
  assumes "\<forall>b\<in>set tiles. buildState b \<noteq> Done"
  shows "findFinishedBuilder tiles = (None, tiles)"
proof (cases "findFinishedBuilder tiles")
  case (Pair found tiles')
  show ?thesis
  proof (cases found)
    case None
    with Pair findFinishedBuilder_None [of tiles tiles'] show ?thesis by simp
  next
    case (Some b)
    with Pair findFinishedBuilder_Some [of tiles b tiles']
      findFinishedBuilder_set [of tiles b tiles'] assms
    show ?thesis by auto
  qed
qed

lemma mergeTiles_body_completed:
  assumes "mergeTiles_body s = Inr (es, s')"
  shows "completedTiles s \<le> completedTiles s' \<and> completedTiles s' \<le> Suc (completedTiles s)"
proof (cases "findFinishedBuilder (activeTiles s)")
  case (Pair found tiles)
  with assms show ?thesis
    by (cases found) (auto simp: mergeTiles_body_None mergeTiles_body_Some split: if_splits)
qed

lemma mergeTiles_exit:
  "mergeTiles cfg fuel s = Some (Inr (es, s')) \<Longrightarrow> \<not> completedTiles s' < tileCount cfg"
proof (induction fuel arbitrary: s es)
  case 0
  then show ?case
    by (simp add: mergeTiles.simps [of cfg 0 s] split: if_splits)
next
  case (Suc k)
  show ?case
  proof (cases "completedTiles s < tileCount cfg")
    case True
    with Suc.prems obtain es1 s1 es2 where "mergeTiles cfg k s1 = Some (Inr (es2, s'))"
      by (auto simp: mergeTiles.simps [of cfg "Suc k" s] split: sum.splits option.splits)
    then show ?thesis by (rule Suc.IH)
  next
    case False
    with Suc.prems show ?thesis
      by (simp add: mergeTiles.simps [of cfg "Suc k" s])
  qed
qed

lemma mergeTiles_exit_exact:
  "completedTiles s \<le> tileCount cfg \<Longrightarrow> mergeTiles cfg fuel s = Some (Inr (es, s')) \<Longrightarrow>
     completedTiles s' = tileCount cfg"
proof (induction fuel arbitrary: s es)
  case 0
  then show ?case
    by (simp add: mergeTiles.simps [of cfg 0 s] split: if_splits)
next
  case (Suc k)
  show ?case
  proof (cases "completedTiles s < tileCount cfg")
    case True
    with Suc.prems(2) obtain es1 s1 es2 where body: "mergeTiles_body s = Inr (es1, s1)"
      and rest: "mergeTiles cfg k s1 = Some (Inr (es2, s'))"
      by (auto simp: mergeTiles.simps [of cfg "Suc k" s] split: sum.splits option.splits)
    from mergeTiles_body_completed [OF body] True have "completedTiles s1 \<le> tileCount cfg"
      by simp
    then show ?thesis using rest by (rule Suc.IH)
  next
    case False
    with Suc.prems show ?thesis
      by (simp add: mergeTiles.simps [of cfg "Suc k" s])
  qed
qed

lemma mergeTiles_polls:
  assumes "completedTiles s < tileCount cfg" and "\<forall>b\<in>set (activeTiles s). buildState b \<noteq> Done"
  shows "mergeTiles cfg fuel s = None"
proof (induction fuel)
  case 0
  from assms(1) show ?case by (simp add: mergeTiles.simps [of cfg 0 s])
next
  case (Suc k)
  from assms(2) have "mergeTiles_body s = Inr ([], s)"
    by (rule mergeTiles_body_None [OF findFinishedBuilder_misses])
  with assms(1) Suc show ?case
    by (simp add: mergeTiles.simps [of cfg "Suc k" s])
qed

lemma mergeTiles_finishes:
  "pipeline_inv cfg s \<Longrightarrow> startedTiles s = tileCount cfg \<Longrightarrow>
   \<forall>b\<in>set (activeTiles s). buildState b = Done \<Longrightarrow> length (activeTiles s) = n \<Longrightarrow>
     \<exists>es s'. mergeTiles cfg n s = Some (Inr (es, s')) \<and> completedTiles s' = tileCount cfg \<and>
       activeTiles s' = []"
proof (induction n arbitrary: s)
  case 0
  then have "completedTiles s = tileCount cfg" "activeTiles s = []"
    by (auto simp: pipeline_inv_def)
  then show ?case by (simp add: mergeTiles.simps [of cfg 0 s])
next
  case (Suc n)
  from Suc.prems have lt: "completedTiles s < tileCount cfg"
    by (auto simp: pipeline_inv_def)
  from Suc.prems(4) have "activeTiles s \<noteq> []" by auto
  with Suc.prems(3) have "\<exists>b\<in>set (activeTiles s). buildState b = Done"
    by (cases "activeTiles s") auto
  from findFinishedBuilder_finds [OF this] obtain b tiles where
    f: "findFinishedBuilder (activeTiles s) = (Some b, tiles)" by blast
  from mergeTiles_body_inv [OF Suc.prems(1)] obtain es1 s1 where
    body: "mergeTiles_body s = Inr (es1, s1)" and inv1: "pipeline_inv cfg s1" by blast
  from body have s1: "activeTiles s1 = tiles" "startedTiles s1 = startedTiles s"
    by (auto simp: mergeTiles_body_Some [OF f] split: if_splits)
  from findFinishedBuilder_set [OF f] Suc.prems(3) s1
  have done1: "\<forall>b\<in>set (activeTiles s1). buildState b = Done" by auto
  from findFinishedBuilder_length [OF f] Suc.prems(4) s1 have "length (activeTiles s1) = n"
    by simp
  from Suc.IH [OF inv1 _ done1 this] s1 Suc.prems(2) obtain es2 s' where
    "mergeTiles cfg n s1 = Some (Inr (es2, s'))" "completedTiles s' = tileCount cfg"
    "activeTiles s' = []"
    by auto
  with lt body show ?case
    by (simp add: mergeTiles.simps [of cfg "Suc n" s])
qed

text \<open>
  Claim C3. The merge loop ends at once when \<open>completedTiles < N * N\<close> fails, otherwise
  passes through its body and goes on; when it ends, \<open>completedTiles\<close> is not below
  \<open>N * N\<close>, and equals it if it did not exceed it at the start. When no active builder
  is \<open>Done\<close>, a pass leaves the state as it is, and the loop keeps polling. When some
  builder is \<open>Done\<close>, a pass takes the first such builder \<open>b\<close>, at position \<open>k\<close>, out of
  the collection by moving the last builder to position \<open>k\<close> and dropping the last
  position, so that the remaining builders are the old ones without one copy of \<open>b\<close>;
  it merges the subtree of \<open>b\<close> with \<open>writeTree\<close>, stores the returned pointer in the
  table at the tile index of \<open>b\<close>, deletes \<open>b\<close> and adds one to \<open>completedTiles\<close>. (A tile
  index outside the table, which no reachable state has, is an error.)
\<close>

theorem merge_loop_iteration:
  "(\<not> completedTiles s < tileCount cfg \<longrightarrow> mergeTiles cfg fuel s = Some (Inr ([], s))) \<and>
   (mergeTiles cfg fuel s = Some (Inr (es, s')) \<longrightarrow>
      \<not> completedTiles s' < tileCount cfg \<and>
      (completedTiles s \<le> tileCount cfg \<longrightarrow> completedTiles s' = tileCount cfg)) \<and>
   (completedTiles s < tileCount cfg \<longrightarrow>
      mergeTiles cfg (Suc fuel) s =
        (case mergeTiles_body s of
           Inl e \<Rightarrow> Some (Inl e)
         | Inr (es1, s1) \<Rightarrow>
             (case mergeTiles cfg fuel s1 of
                None \<Rightarrow> None
              | Some (Inl e) \<Rightarrow> Some (Inl e)
              | Some (Inr (es2, s2)) \<Rightarrow> Some (Inr (es1 @ es2, s2))))) \<and>
   ((\<forall>b\<in>set (activeTiles s). buildState b \<noteq> Done) \<longrightarrow>
      findFinishedBuilder (activeTiles s) = (None, activeTiles s) \<and>
      mergeTiles_body s = Inr ([], s) \<and>
      (completedTiles s < tileCount cfg \<longrightarrow> mergeTiles cfg fuel s = None)) \<and>
   ((\<exists>b\<in>set (activeTiles s). buildState b = Done) \<longrightarrow>
      (\<exists>k b tiles ptr buf.
         k < length (activeTiles s) \<and> b = activeTiles s ! k \<and> buildState b = Done \<and>
         (\<forall>j<k. buildState (activeTiles s ! j) \<noteq> Done) \<and>
         tiles = butlast ((activeTiles s)[k := last (activeTiles s)]) \<and>
         findFinishedBuilder (activeTiles s) = (Some b, tiles) \<and>
         mset (activeTiles s) = add_mset b (mset tiles) \<and>
         writeTree (voxelWriter s) (tree b) (rootAddress b) (tileResolution s) = (ptr, buf) \<and>
         mergeTiles_body s =
           (if tileIndex b < length (treePointers s)
            then Inr ([WriteTreePointer (tileIndex b) ptr, DeleteBuilder b],
                      s\<lparr>activeTiles := tiles, voxelWriter := buf,
                        treePointers := (treePointers s)[tileIndex b := ptr],
                        completedTiles := completedTiles s + 1\<rparr>)
            else Inl OutOfBounds)))"
proof -
  have stop: "\<not> completedTiles s < tileCount cfg \<longrightarrow>
      mergeTiles cfg fuel s = Some (Inr ([], s))"
    by (simp add: mergeTiles.simps [of cfg fuel s])
  have exit: "mergeTiles cfg fuel s = Some (Inr (es, s')) \<longrightarrow>
      \<not> completedTiles s' < tileCount cfg \<and>
      (completedTiles s \<le> tileCount cfg \<longrightarrow> completedTiles s' = tileCount cfg)"
    using mergeTiles_exit [of cfg fuel s es s'] mergeTiles_exit_exact [of s cfg fuel es s']
    by blast
  have iter: "completedTiles s < tileCount cfg \<longrightarrow>
      mergeTiles cfg (Suc fuel) s =
        (case mergeTiles_body s of
           Inl e \<Rightarrow> Some (Inl e)
         | Inr (es1, s1) \<Rightarrow>
             (case mergeTiles cfg fuel s1 of
                None \<Rightarrow> None
              | Some (Inl e) \<Rightarrow> Some (Inl e)
              | Some (Inr (es2, s2)) \<Rightarrow> Some (Inr (es1 @ es2, s2))))"
    by (simp add: mergeTiles.simps [of cfg "Suc fuel" s])
  have none: "(\<forall>b\<in>set (activeTiles s). buildState b \<noteq> Done) \<longrightarrow>
      findFinishedBuilder (activeTiles s) = (None, activeTiles s) \<and>
      mergeTiles_body s = Inr ([], s) \<and>
      (completedTiles s < tileCount cfg \<longrightarrow> mergeTiles cfg fuel s = None)"
    using findFinishedBuilder_misses [of "activeTiles s"]
      mergeTiles_body_None [of s "activeTiles s"] mergeTiles_polls [of s cfg fuel]
    by blast
  have some: "(\<exists>b\<in>set (activeTiles s). buildState b = Done) \<longrightarrow>
      (\<exists>k b tiles ptr buf.
         k < length (activeTiles s) \<and> b = activeTiles s ! k \<and> buildState b = Done \<and>
         (\<forall>j<k. buildState (activeTiles s ! j) \<noteq> Done) \<and>
         tiles = butlast ((activeTiles s)[k := last (activeTiles s)]) \<and>
         findFinishedBuilder (activeTiles s) = (Some b, tiles) \<and>
         mset (activeTiles s) = add_mset b (mset tiles) \<and>
         writeTree (voxelWriter s) (tree b) (rootAddress b) (tileResolution s) = (ptr, buf) \<and>
         mergeTiles_body s =
           (if tileIndex b < length (treePointers s)
            then Inr ([WriteTreePointer (tileIndex b) ptr, DeleteBuilder b],
                      s\<lparr>activeTiles := tiles, voxelWriter := buf,
                        treePointers := (treePointers s)[tileIndex b := ptr],
                        completedTiles := completedTiles s + 1\<rparr>)
            else Inl OutOfBounds))"
  proof
    assume "\<exists>b\<in>set (activeTiles s). buildState b = Done"
    from findFinishedBuilder_finds [OF this] obtain b tiles where
      f: "findFinishedBuilder (activeTiles s) = (Some b, tiles)" by blast
    from findFinishedBuilder_Some [OF f] obtain k where
      k: "k < length (activeTiles s)" "b = activeTiles s ! k" "buildState b = Done"
        "\<forall>j<k. buildState (activeTiles s ! j) \<noteq> Done"
        "tiles = butlast ((activeTiles s)[k := last (activeTiles s)])"
        "mset (activeTiles s) = add_mset b (mset tiles)"
      by blast
    obtain ptr buf where
      w: "writeTree (voxelWriter s) (tree b) (rootAddress b) (tileResolution s) = (ptr, buf)"
      by (cases "writeTree (voxelWriter s) (tree b) (rootAddress b) (tileResolution s)")
    with f have "mergeTiles_body s =
           (if tileIndex b < length (treePointers s)
            then Inr ([WriteTreePointer (tileIndex b) ptr, DeleteBuilder b],
                      s\<lparr>activeTiles := tiles, voxelWriter := buf,
                        treePointers := (treePointers s)[tileIndex b := ptr],
                        completedTiles := completedTiles s + 1\<rparr>)
            else Inl OutOfBounds)"
      by (simp add: mergeTiles_body_def Let_def)
    with k f w show "\<exists>k b tiles ptr buf.
         k < length (activeTiles s) \<and> b = activeTiles s ! k \<and> buildState b = Done \<and>
         (\<forall>j<k. buildState (activeTiles s ! j) \<noteq> Done) \<and>
         tiles = butlast ((activeTiles s)[k := last (activeTiles s)]) \<and>
         findFinishedBuilder (activeTiles s) = (Some b, tiles) \<and>
         mset (activeTiles s) = add_mset b (mset tiles) \<and>
         writeTree (voxelWriter s) (tree b) (rootAddress b) (tileResolution s) = (ptr, buf) \<and>
         mergeTiles_body s =
           (if tileIndex b < length (treePointers s)
            then Inr ([WriteTreePointer (tileIndex b) ptr, DeleteBuilder b],
                      s\<lparr>activeTiles := tiles, voxelWriter := buf,
                        treePointers := (treePointers s)[tileIndex b := ptr],
                        completedTiles := completedTiles s + 1\<rparr>)
            else Inl OutOfBounds)"
      by blast
  qed
  from stop exit iter none some show ?thesis by blast
qed

text \<open>
  The theorem at a state without a finished builder, at a state whose first builder has
  finished, and at a state in which all tiles are completed.
\<close>

theorem merge_loop_iteration_witness:
  "mergeTiles_body demo_state = Inr ([], demo_state) \<and>
   mergeTiles demo_config 5 demo_state = None \<and>
   mergeTiles_body demo_done_state =
     Inr ([WriteTreePointer 0 3, DeleteBuilder (activeTiles demo_done_state ! 0)],
          demo_done_state\<lparr>activeTiles := [new_VoxelBuilder 2 8 2 102],
            voxelWriter := voxelWriter demo_done_state @ [\<lparr>childMask = 7, children = []\<rparr>],
            treePointers := [3, 1, 0, 0], completedTiles := 2\<rparr>) \<and>
   mergeTiles demo_config 5 (demo_done_state\<lparr>completedTiles := 4\<rparr>) =
     Some (Inr ([], demo_done_state\<lparr>completedTiles := 4\<rparr>))"
proof -
  have tc: "tileCount demo_config = 4" by (simp add: tileCount_def demo_config_def)
  have "\<forall>b\<in>set (activeTiles demo_state). buildState b \<noteq> Done"
    "completedTiles demo_state < tileCount demo_config"
    by (simp_all add: demo_state_def new_VoxelBuilder_def tc)
  with merge_loop_iteration [of demo_state demo_config 5]
  have polls: "mergeTiles_body demo_state = Inr ([], demo_state)"
    "mergeTiles demo_config 5 demo_state = None"
    by blast+
  have "\<not> completedTiles (demo_done_state\<lparr>completedTiles := 4\<rparr>) < tileCount demo_config"
    by (simp add: tc)
  with merge_loop_iteration [of "demo_done_state\<lparr>completedTiles := 4\<rparr>" demo_config 5]
  have stops: "mergeTiles demo_config 5 (demo_done_state\<lparr>completedTiles := 4\<rparr>) =
     Some (Inr ([], demo_done_state\<lparr>completedTiles := 4\<rparr>))"
    by blast
  have "\<exists>b\<in>set (activeTiles demo_done_state). buildState b = Done"
    by (simp add: demo_done_state_def)
  with merge_loop_iteration [of demo_done_state demo_config 5]
  obtain k b tiles ptr buf where
    f: "findFinishedBuilder (activeTiles demo_done_state) = (Some b, tiles)"
    and w: "writeTree (voxelWriter demo_done_state) (tree b) (rootAddress b)
          (tileResolution demo_done_state) = (ptr, buf)"
    and body: "mergeTiles_body demo_done_state =
           (if tileIndex b < length (treePointers demo_done_state)
            then Inr ([WriteTreePointer (tileIndex b) ptr, DeleteBuilder b],
                      demo_done_state\<lparr>activeTiles := tiles, voxelWriter := buf,
                        treePointers := (treePointers demo_done_state)[tileIndex b := ptr],
                        completedTiles := completedTiles demo_done_state + 1\<rparr>)
            else Inl OutOfBounds)"
    by blast
  from f have b: "b = activeTiles demo_done_state ! 0"
    and tiles: "tiles = [new_VoxelBuilder 2 8 2 102]"
    by (simp_all add: demo_done_state_def findFinishedBuilder_def
        findFinishedBuilder_from.simps Let_def swap_def pop_back_def)
  from w have "ptr = 3" "buf = voxelWriter demo_done_state @ [\<lparr>childMask = 7, children = []\<rparr>]"
    unfolding b
    by (auto simp: demo_done_state_def new_VoxelBuilder_def writeTree_def relocate_def)
  with body tiles have "mergeTiles_body demo_done_state =
     Inr ([WriteTreePointer 0 3, DeleteBuilder (activeTiles demo_done_state ! 0)],
          demo_done_state\<lparr>activeTiles := [new_VoxelBuilder 2 8 2 102],
            voxelWriter := voxelWriter demo_done_state @ [\<lparr>childMask = 7, children = []\<rparr>],
            treePointers := [3, 1, 0, 0], completedTiles := 2\<rparr>)"
    unfolding b by (simp add: demo_done_state_def new_VoxelBuilder_def)
  with polls stops show ?thesis by blast
qed

subsection \<open>Scene bounds\<close>

lemma expandToCover_keeps: "covers b p \<Longrightarrow> covers (expandToCover b q) p"
  by (auto simp: covers_def expandToCover_def min_le_iff_disj le_max_iff_disj)

lemma expandToCover_covers: "covers (expandToCover b q) q"
  by (simp add: covers_def expandToCover_def)

lemma fold_vertices_keeps:
  "covers b p \<Longrightarrow> covers (fold (\<lambda>v bounds. expandToCover bounds (f v)) vs b) p"
  by (induction vs arbitrary: b) (simp_all add: expandToCover_keeps)

lemma fold_vertices_covers:
  "v \<in> set vs \<Longrightarrow> covers (fold (\<lambda>v bounds. expandToCover bounds (f v)) vs b) (f v)"
proof (induction vs arbitrary: b)
  case Nil
  then show ?case by simp
next
  case (Cons w vs)
  show ?case
  proof (cases "v = w")
    case True
    then show ?thesis
      by (simp add: fold_vertices_keeps expandToCover_covers)
  next
    case False
    with Cons show ?thesis by simp
  qed
qed

lemma fold_instances_keeps:
  "covers b p \<Longrightarrow>
     covers (fold (\<lambda>inst bounds.
               fold (\<lambda>v bounds. expandToCover bounds (toLight (localToWorld inst) v))
                 (vertices inst) bounds) instances b) p"
  by (induction instances arbitrary: b) (simp_all add: fold_vertices_keeps)

lemma fold_instances_covers:
  "inst \<in> set instances \<Longrightarrow> v \<in> set (vertices inst) \<Longrightarrow>
     covers (fold (\<lambda>inst bounds.
               fold (\<lambda>v bounds. expandToCover bounds (toLight (localToWorld inst) v))
                 (vertices inst) bounds) instances b) (toLight (localToWorld inst) v)"
proof (induction instances arbitrary: b)
  case Nil
  then show ?case by simp
next
  case (Cons i instances)
  show ?case
  proof (cases "inst = i")
    case True
    with Cons.prems(2) show ?thesis
      by (simp add: fold_instances_keeps fold_vertices_covers)
  next
    case False
    with Cons show ?thesis by simp
  qed
qed

text \<open>
  Claim C10. For every scene the bounds that \<open>sceneBoundsLightSpace\<close> returns contain
  the light-space origin, and they contain every transformed vertex. For a scene
  without instances they are the box of size zero at the origin.
\<close>

theorem sceneBounds_contain_origin:
  "covers (sceneBoundsLightSpace toLight instances) Vector3_zero \<and>
   sceneBoundsLightSpace toLight [] = \<lparr>bmin = Vector3_zero, bmax = Vector3_zero\<rparr> \<and>
   (\<forall>inst\<in>set instances. \<forall>v\<in>set (vertices inst).
      covers (sceneBoundsLightSpace toLight instances) (toLight (localToWorld inst) v))"
proof -
  have "covers \<lparr>bmin = Vector3_zero, bmax = Vector3_zero\<rparr> (Vector3_zero :: 'a Vector3)"
    by (simp add: covers_def)
  then have "covers (sceneBoundsLightSpace toLight instances) Vector3_zero"
    unfolding sceneBoundsLightSpace_def by (rule fold_instances_keeps)
  moreover have "\<forall>inst\<in>set instances. \<forall>v\<in>set (vertices inst).
      covers (sceneBoundsLightSpace toLight instances) (toLight (localToWorld inst) v)"
    unfolding sceneBoundsLightSpace_def by (blast intro: fold_instances_covers)
  ultimately show ?thesis by (simp add: sceneBoundsLightSpace_def)
qed

text \<open>
  The theorem for a scene whose only vertex is \<open>(1, 2, 3)\<close>: the bounds reach from the
  origin to the vertex.
\<close>

theorem sceneBounds_contain_origin_witness:
  "sceneBoundsLightSpace demo_toLight demo_scene =
     \<lparr>bmin = \<lparr>vx = 0, vy = 0, vz = 0\<rparr>, bmax = \<lparr>vx = 1, vy = 2, vz = 3\<rparr>\<rparr> \<and>
   covers (sceneBoundsLightSpace demo_toLight demo_scene) Vector3_zero \<and>
   covers (sceneBoundsLightSpace demo_toLight demo_scene) \<lparr>vx = 1, vy = 2, vz = 3\<rparr>"
proof -
  have "sceneBoundsLightSpace demo_toLight demo_scene =
     \<lparr>bmin = \<lparr>vx = 0, vy = 0, vz = 0\<rparr>, bmax = \<lparr>vx = 1, vy = 2, vz = 3\<rparr>\<rparr>"
    by (simp add: sceneBoundsLightSpace_def demo_scene_def demo_toLight_def
        expandToCover_def Vector3_zero_def)
  moreover from sceneBounds_contain_origin [of demo_toLight demo_scene]
  have "covers (sceneBoundsLightSpace demo_toLight demo_scene) Vector3_zero"
    "covers (sceneBoundsLightSpace demo_toLight demo_scene) \<lparr>vx = 1, vy = 2, vz = 3\<rparr>"
    by (simp_all add: demo_scene_def demo_toLight_def)
  ultimately show ?thesis by simp
qed

subsection \<open>Counters under interleaving of the two threads\<close>

lemma threads_init_inv:
  assumes "VoxelTree_new cfg res = Inr (es0, s0)"
  shows "threads_inv cfg (threads_init s0)"
  using VoxelTree_new_inv [OF assms]
  by (simp add: threads_inv_def threads_init_def pipeline_inv_def)

lemma list_all_tileIndex_mono:
  "list_all (\<lambda>b. tileIndex b < n) bs \<Longrightarrow> n \<le> m \<Longrightarrow> list_all (\<lambda>b. tileIndex b < m) bs"
  by (auto simp: list_all_iff)

lemma driver_stmt_inv:
  assumes "threads_inv cfg st"
  shows "threads_inv cfg (snd (driver_stmt cfg st)) \<and>
         counters_le (shared st) (shared (snd (driver_stmt cfg st)))"
proof (cases "driver st")
  case DIdle
  with assms show ?thesis
    by (auto simp: driver_stmt_def threads_inv_def counters_le_def Let_def split_beta
        split: merger_pc.splits)
next
  case (DRegister entry exit)
  with assms show ?thesis
    by (auto simp: driver_stmt_def threads_inv_def counters_le_def Let_def new_VoxelBuilder_def
        elim: list_all_tileIndex_mono split: merger_pc.splits)
next
  case DIncrement
  with assms show ?thesis
    by (auto simp: driver_stmt_def threads_inv_def counters_le_def Let_def
        split: merger_pc.splits)
next
  case DPublish
  with assms show ?thesis
    by (auto simp: driver_stmt_def threads_inv_def counters_le_def Let_def
        split: merger_pc.splits)
next
  case DAssign
  with assms show ?thesis
    by (auto simp: driver_stmt_def threads_inv_def counters_le_def Let_def
        split: merger_pc.splits)
next
  case DUpload
  with assms show ?thesis
    by (auto simp: driver_stmt_def threads_inv_def counters_le_def Let_def
        split: merger_pc.splits)
qed

lemma merger_stmt_inv:
  assumes "threads_inv cfg st"
  shows "\<exists>es st'. merger_stmt cfg st = Inr (es, st') \<and> threads_inv cfg st' \<and>
           counters_le (shared st) (shared st')"
proof (cases "merger st")
  case MLoop
  show ?thesis
  proof (cases "completedTiles (shared st) < tileCount cfg")
    case False
    with MLoop assms show ?thesis
      by (auto simp: merger_stmt_def threads_inv_def counters_le_def Let_def
          split: driver_pc.splits)
  next
    case True
    show ?thesis
    proof (cases "findFinishedBuilder (activeTiles (shared st))")
      case (Pair found tiles)
      show ?thesis
      proof (cases found)
        case None
        with Pair findFinishedBuilder_None [of "activeTiles (shared st)" tiles]
        have "tiles = activeTiles (shared st)" by simp
        with None Pair MLoop True assms show ?thesis
          by (auto simp: merger_stmt_def threads_inv_def counters_le_def Let_def
          split: driver_pc.splits)
      next
        case (Some b)
        with Pair have f: "findFinishedBuilder (activeTiles (shared st)) = (Some b, tiles)"
          by simp
        from findFinishedBuilder_length [OF f] findFinishedBuilder_set [OF f]
        have len: "Suc (length tiles) = length (activeTiles (shared st))"
          and set: "set (activeTiles (shared st)) = insert b (set tiles)" .
        from assms set
        have idx: "tileIndex b < startedTiles (shared st) + pending (driver st)"
          and rest: "list_all (\<lambda>b. tileIndex b < startedTiles (shared st) + pending (driver st))
            tiles"
          by (auto simp: threads_inv_def Let_def list_all_iff)
        with f MLoop True assms len show ?thesis
          by (auto simp: merger_stmt_def threads_inv_def counters_le_def Let_def
              split: driver_pc.splits)
      qed
    qed
  qed
next
  case (MMerge b)
  with assms have "tileIndex b < length (treePointers (shared st))"
    by (auto simp: threads_inv_def Let_def)
  with MMerge assms show ?thesis
    by (auto simp: merger_stmt_def threads_inv_def counters_le_def Let_def writeTree_def
        split: driver_pc.splits)
next
  case MIncrement
  with assms show ?thesis
    by (auto simp: merger_stmt_def threads_inv_def counters_le_def Let_def
        split: driver_pc.splits)
next
  case MExit
  with assms show ?thesis
    by (simp add: merger_stmt_def counters_le_def)
qed

lemma builderEnds_inv:
  assumes "threads_inv cfg st"
  shows "threads_inv cfg (st\<lparr>shared := builderFinished i t r (shared st)\<rparr>)"
proof (cases "i < length (activeTiles (shared st)) \<and>
    buildState (activeTiles (shared st) ! i) = Building")
  case True
  let ?n = "startedTiles (shared st) + pending (driver st)"
  let ?b = "(activeTiles (shared st) ! i)\<lparr>buildState := Done, tree := t, rootAddress := r\<rparr>"
  from True assms have "tileIndex ?b < ?n"
    by (auto simp: threads_inv_def Let_def list_all_length)
  with assms have "list_all (\<lambda>b. tileIndex b < ?n) ((activeTiles (shared st))[i := ?b])"
    by (auto simp: threads_inv_def Let_def list_all_iff
        dest!: subsetD [OF set_update_subset_insert])
  with True assms show ?thesis
    by (auto simp: builderFinished_def threads_inv_def Let_def
        split: driver_pc.splits merger_pc.splits)
next
  case False
  with assms show ?thesis by (auto simp: builderFinished_def)
qed

lemma thread_step_inv:
  assumes "threads_inv cfg st"
  shows "\<exists>es st'. thread_step cfg st ev = Inr (es, st') \<and> threads_inv cfg st' \<and>
           counters_le (shared st) (shared st')"
proof (cases ev)
  case DriverStmt
  with driver_stmt_inv [OF assms] show ?thesis
    by (cases "driver_stmt cfg st") (simp add: thread_step_def)
next
  case MergerStmt
  with merger_stmt_inv [OF assms] show ?thesis
    by (simp add: thread_step_def)
next
  case (BuilderEnds i t r)
  with builderEnds_inv [OF assms] builderFinished_counters [of "shared st"] show ?thesis
    by (simp add: thread_step_def)
qed

lemma interleave_inv:
  "threads_inv cfg st \<Longrightarrow>
     \<exists>es st'. interleave cfg st evs = Inr (es, st') \<and> threads_inv cfg st' \<and>
       counters_le (shared st) (shared st')"
proof (induction evs arbitrary: st)
  case Nil
  then show ?case by (simp add: counters_le_def)
next
  case (Cons ev evs)
  from thread_step_inv [OF Cons.prems] obtain es1 st1 where
    s1: "thread_step cfg st ev = Inr (es1, st1)" "threads_inv cfg st1"
      "counters_le (shared st) (shared st1)" by blast
  from Cons.IH [OF s1(2)] obtain es2 st2 where
    s2: "interleave cfg st1 evs = Inr (es2, st2)" "threads_inv cfg st2"
      "counters_le (shared st1) (shared st2)" by blast
  from s1 s2 counters_le_trans [OF s1(3) s2(3)] show ?case by simp
qed

lemma interleave_append:
  "interleave cfg st (evs @ evs') =
     (case interleave cfg st evs of
        Inl e \<Rightarrow> Inl e
      | Inr (es, st') \<Rightarrow>
          (case interleave cfg st' evs' of
             Inl e \<Rightarrow> Inl e
           | Inr (es', st'') \<Rightarrow> Inr (es @ es', st'')))"
  by (induction evs arbitrary: st) (auto split: sum.splits)

text \<open>
  The calls of the coarser runs are what the threads do when nothing comes in between:
  the statements of one call of \<open>updateBuild\<close>, run in a row, have the effects and the
  result of \<open>updateBuild\<close>, and those of one pass through the merge loop have the effects
  and the result of \<open>mergeTiles_body\<close>.
\<close>

lemma driver_stmt_idle:
  "driver st = DIdle \<Longrightarrow>
     driver_stmt cfg st =
       (if length (activeTiles (shared st)) < ConcurrentBuilds cfg \<and>
           startedTiles (shared st) \<noteq> tileCount cfg
        then ([], st\<lparr>driver := DRegister
                (fst (computeDualShadowMaps cfg (tileBounds cfg (startedTiles (shared st)))))
                (snd (computeDualShadowMaps cfg (tileBounds cfg (startedTiles (shared st)))))\<rparr>)
        else ([], st\<lparr>driver := DPublish\<rparr>))"
  by (simp add: driver_stmt_def Let_def split_beta)

lemma driver_call_is_updateBuild:
  assumes "driver st = DIdle"
  shows "\<exists>k>0. interleave cfg st (replicate k DriverStmt) =
           Inr (fst (updateBuild cfg (shared st)), st\<lparr>shared := snd (updateBuild cfg (shared st))\<rparr>)"
proof -
  let ?s = "shared st"
  let ?goal = "\<lambda>evs. interleave cfg st evs =
           Inr (fst (updateBuild cfg ?s), st\<lparr>shared := snd (updateBuild cfg ?s)\<rparr>)"
  let ?admit = "length (activeTiles ?s) < ConcurrentBuilds cfg \<and> startedTiles ?s \<noteq> tileCount cfg"
  let ?pub = "tilesOnGPU ?s < completedTiles ?s"
  consider "?admit \<and> ?pub" | "?admit \<and> \<not> ?pub" | "\<not> ?admit \<and> ?pub" | "\<not> ?admit \<and> \<not> ?pub"
    by blast
  then show ?thesis
  proof cases
    case 1
    with assms have "?goal [DriverStmt, DriverStmt, DriverStmt, DriverStmt, DriverStmt, DriverStmt]"
      apply (simp add: thread_step_def driver_stmt_idle)
      apply (simp add: driver_stmt_def updateBuild_eq processFirstQueuedTile_eq Let_def
          updateUniformBuffer_def updateTreeBuffer_def)
      done
    then show ?thesis
      by (intro exI [of _ "Suc (Suc (Suc (Suc (Suc (Suc 0)))))"]) simp
  next
    case 2
    with assms have "?goal [DriverStmt, DriverStmt, DriverStmt, DriverStmt]"
      apply (simp add: thread_step_def driver_stmt_idle)
      apply (simp add: driver_stmt_def updateBuild_eq processFirstQueuedTile_eq Let_def
          updateUniformBuffer_def updateTreeBuffer_def)
      done
    then show ?thesis
      by (intro exI [of _ "Suc (Suc (Suc (Suc 0)))"]) simp
  next
    case 3
    with assms have "?goal [DriverStmt, DriverStmt, DriverStmt, DriverStmt]"
      apply (simp add: thread_step_def driver_stmt_idle)
      apply (simp add: driver_stmt_def updateBuild_eq processFirstQueuedTile_eq Let_def
          updateUniformBuffer_def updateTreeBuffer_def)
      done
    then show ?thesis
      by (intro exI [of _ "Suc (Suc (Suc (Suc 0)))"]) simp
  next
    case 4
    with assms have "?goal [DriverStmt, DriverStmt]"
      apply (simp add: thread_step_def driver_stmt_idle)
      apply (simp add: driver_stmt_def updateBuild_eq processFirstQueuedTile_eq Let_def
          updateUniformBuffer_def updateTreeBuffer_def)
      done
    then show ?thesis
      by (intro exI [of _ "Suc (Suc 0)"]) simp
  qed
qed

lemma merger_pass_is_mergeTiles_body:
  assumes "merger st = MLoop" and "completedTiles (shared st) < tileCount cfg"
    and "mergeTiles_body (shared st) = Inr (es, s')"
  shows "\<exists>k>0. interleave cfg st (replicate k MergerStmt) = Inr (es, st\<lparr>shared := s'\<rparr>)"
proof (cases "findFinishedBuilder (activeTiles (shared st))")
  case (Pair found tiles)
  show ?thesis
  proof (cases found)
    case None
    with Pair have f: "findFinishedBuilder (activeTiles (shared st)) = (None, tiles)" by simp
    from findFinishedBuilder_None [OF f] have "tiles = activeTiles (shared st)" by simp
    with assms f mergeTiles_body_None [OF f]
    have "interleave cfg st [MergerStmt] = Inr (es, st\<lparr>shared := s'\<rparr>)"
      by (simp add: thread_step_def merger_stmt_def Let_def)
    then show ?thesis
      by (intro exI [of _ "Suc 0"]) simp
  next
    case (Some b)
    with Pair have f: "findFinishedBuilder (activeTiles (shared st)) = (Some b, tiles)" by simp
    from assms(3) have "tileIndex b < length (treePointers (shared st))"
      by (simp add: mergeTiles_body_Some [OF f] split: if_splits)
    with assms f
    have "interleave cfg st [MergerStmt, MergerStmt, MergerStmt] = Inr (es, st\<lparr>shared := s'\<rparr>)"
      apply (simp add: mergeTiles_body_Some [OF f])
      apply (simp add: thread_step_def merger_stmt_def Let_def writeTree_def)
      done
    then show ?thesis
      by (intro exI [of _ "Suc (Suc (Suc 0))"]) simp
  qed
qed

lemma threads_inv_counters:
  assumes "threads_inv cfg st"
  shows "tilesOnGPU (shared st) \<le> completedTiles (shared st)"
    and "completedTiles (shared st) \<le> startedTiles (shared st) + pending (driver st)"
    and "startedTiles (shared st) + pending (driver st) \<le> tileCount cfg"
  using assms by (auto simp: threads_inv_def Let_def)

text \<open>
  Claim C2, as amended. From the state the constructor leaves, every interleaving of
  statements of the driver thread, statements of the merge thread and builder
  completions runs without error. In every state it reaches,
  \<open>tilesOnGPU \<le> completedTiles \<le> N * N\<close> and \<open>startedTiles \<le> N * N\<close>, and
  \<open>completedTiles \<le> startedTiles\<close> unless the driver stands between the registration of a
  builder and \<open>startedTiles_++\<close>, where \<open>completedTiles \<le> startedTiles + 1\<close>; so the whole
  chain holds whenever the driver is outside \<open>updateBuild\<close>. Continuing with any further
  statements lowers none of the three counters.
\<close>

theorem counters_under_interleaving:
  assumes "VoxelTree_new cfg res = Inr (es0, s0)"
  shows "\<exists>es st es' st'.
           interleave cfg (threads_init s0) evs = Inr (es, st) \<and>
           interleave cfg (threads_init s0) (evs @ evs') = Inr (es @ es', st') \<and>
           tilesOnGPU (shared st) \<le> completedTiles (shared st) \<and>
           completedTiles (shared st) \<le> TileSubdivisons cfg * TileSubdivisons cfg \<and>
           startedTiles (shared st) \<le> TileSubdivisons cfg * TileSubdivisons cfg \<and>
           (driver st \<noteq> DIncrement \<longrightarrow> completedTiles (shared st) \<le> startedTiles (shared st)) \<and>
           (driver st = DIdle \<longrightarrow>
              tilesOnGPU (shared st) \<le> completedTiles (shared st) \<and>
              completedTiles (shared st) \<le> startedTiles (shared st) \<and>
              startedTiles (shared st) \<le> TileSubdivisons cfg * TileSubdivisons cfg) \<and>
           completedTiles (shared st) \<le> startedTiles (shared st) + 1 \<and>
           startedTiles (shared st) \<le> startedTiles (shared st') \<and>
           completedTiles (shared st) \<le> completedTiles (shared st') \<and>
           tilesOnGPU (shared st) \<le> tilesOnGPU (shared st')"
proof -
  from interleave_inv [OF threads_init_inv [OF assms], of evs] obtain es st where
    st: "interleave cfg (threads_init s0) evs = Inr (es, st)" "threads_inv cfg st" by blast
  from interleave_inv [OF st(2), of evs'] obtain es' st' where
    st': "interleave cfg st evs' = Inr (es', st')" "counters_le (shared st) (shared st')"
    by blast
  from st(1) st'(1)
  have app: "interleave cfg (threads_init s0) (evs @ evs') = Inr (es @ es', st')"
    by (simp add: interleave_append)
  note c = threads_inv_counters [OF st(2)]
  have p: "pending (driver st) \<le> 1" "driver st \<noteq> DIncrement \<longrightarrow> pending (driver st) = 0"
    by (cases "driver st"; simp)+
  from c p have b: "tilesOnGPU (shared st) \<le> completedTiles (shared st)"
    "completedTiles (shared st) \<le> TileSubdivisons cfg * TileSubdivisons cfg"
    "startedTiles (shared st) \<le> TileSubdivisons cfg * TileSubdivisons cfg"
    "driver st \<noteq> DIncrement \<longrightarrow> completedTiles (shared st) \<le> startedTiles (shared st)"
    "completedTiles (shared st) \<le> startedTiles (shared st) + 1"
    by (auto simp: tileCount_def)
  from b have idle: "driver st = DIdle \<longrightarrow>
              tilesOnGPU (shared st) \<le> completedTiles (shared st) \<and>
              completedTiles (shared st) \<le> startedTiles (shared st) \<and>
              startedTiles (shared st) \<le> TileSubdivisons cfg * TileSubdivisons cfg"
    by auto
  from st(1) app b idle st'(2) show ?thesis
    unfolding counters_le_def by blast
qed

lemmas interleave_eval =
  VoxelTree_new_cases demo_config_def signed_divide_int_def thread_step_def driver_stmt_def
  merger_stmt_def threads_init_def tileCount_def Let_def builderFinished_def
  new_VoxelBuilder_def findFinishedBuilder_def findFinishedBuilder_from.simps swap_def
  pop_back_def writeTree_def relocate_def updateUniformBuffer_def updateTreeBuffer_def

text \<open>
  The theorem for four tiles and the schedule of the race followed by the rest of the
  driver's call: in the window the counters are 0 started and 1 completed, and when the
  driver is outside \<open>updateBuild\<close> again they are in order.
\<close>

theorem counters_under_interleaving_witness:
  "\<exists>es0 s0 es st es' st'.
     VoxelTree_new demo_config 16 = Inr (es0, s0) \<and>
     interleave demo_config (threads_init s0) race_events = Inr (es, st) \<and>
     interleave demo_config (threads_init s0)
       (race_events @ [DriverStmt, DriverStmt, DriverStmt, DriverStmt]) = Inr (es @ es', st') \<and>
     driver st = DIncrement \<and> startedTiles (shared st) = 0 \<and>
     completedTiles (shared st) = 1 \<and>
     completedTiles (shared st) \<le> startedTiles (shared st) + 1 \<and>
     driver st' = DIdle \<and> startedTiles (shared st') = 1 \<and>
     completedTiles (shared st') = 1 \<and> tilesOnGPU (shared st') = 1 \<and>
     startedTiles (shared st) \<le> startedTiles (shared st')"
proof -
  have "0 < TileSubdivisons demo_config" by (simp add: demo_config_def)
  from VoxelTree_new_cases [OF this, of 16]
  obtain es0 s0 where new: "VoxelTree_new demo_config 16 = Inr (es0, s0)"
    by (simp add: demo_config_def signed_divide_int_def)
  from new have s0: "s0 = snd (projr (VoxelTree_new demo_config 16))" by simp
  from counters_under_interleaving [OF new, of race_events
      "[DriverStmt, DriverStmt, DriverStmt, DriverStmt]"]
  obtain es st es' st' where
    r: "interleave demo_config (threads_init s0) race_events = Inr (es, st)"
    and r': "interleave demo_config (threads_init s0)
       (race_events @ [DriverStmt, DriverStmt, DriverStmt, DriverStmt]) = Inr (es @ es', st')"
    and le: "completedTiles (shared st) \<le> startedTiles (shared st) + 1"
      "startedTiles (shared st) \<le> startedTiles (shared st')"
    by blast
  from r have "st = snd (projr (interleave demo_config (threads_init s0) race_events))"
    by simp
  then have a: "driver st = DIncrement" "startedTiles (shared st) = 0"
    "completedTiles (shared st) = 1"
    unfolding s0 by (simp_all add: race_events_def interleave_eval)
  from r' have "st' = snd (projr (interleave demo_config (threads_init s0)
       (race_events @ [DriverStmt, DriverStmt, DriverStmt, DriverStmt])))"
    by simp
  then have b: "driver st' = DIdle" "startedTiles (shared st') = 1"
    "completedTiles (shared st') = 1" "tilesOnGPU (shared st') = 1"
    unfolding s0 by (simp_all add: race_events_def interleave_eval)
  from new r r' a b le show ?thesis by blast
qed

text \<open>
  The claim as stated fails in the window: after the schedule of the race, which runs
  without error, \<open>completedTiles\<close> is 1 and \<open>startedTiles\<close> is 0.
\<close>

theorem counters_race_counterexample:
  "\<not> isl (interleave demo_config demo_threads race_events) \<and>
   startedTiles (shared (snd (projr (interleave demo_config demo_threads race_events)))) = 0 \<and>
   completedTiles (shared (snd (projr (interleave demo_config demo_threads race_events)))) = 1 \<and>
   \<not> completedTiles (shared (snd (projr (interleave demo_config demo_threads race_events))))
       \<le> startedTiles (shared (snd (projr (interleave demo_config demo_threads race_events))))"
  by (simp add: demo_threads_def race_events_def interleave_eval)

subsection \<open>Tile bounds\<close>

declare quantum.simps [simp del]





lemmas float_eval =
  fadd_def fsub_def fmul_def fdiv_def float_of_nat_def round32_def quantum.simps Let_def

text \<open>Two known results of binary32 arithmetic: a third, and 0.1 plus 0.2.\<close>

lemma binary32_examples:
  "fdiv (2 ^ 149) (float_of_nat 3) = 11184811 * 2 ^ 124"
  "fadd (13421773 * 2 ^ 122) (13421773 * 2 ^ 123) = 10066330 * 2 ^ 124"
  by (simp_all add: float_eval)




end
